(* ===== verification/GoPrelude.thy ===== *)
theory GoPrelude
  imports Main "HOL-Library.Sublist" "HOL-Library.Word"
begin

text \<open>
  What every component of the runner takes from Go and its standard library: error values and
  \<^verbatim>\<open>errors.Is\<close>, the functions of the packages \<^verbatim>\<open>strings\<close> and \<^verbatim>\<open>strconv\<close> that the code
  calls, and 64-bit signed arithmetic. A Go string is a sequence of bytes, here a list of
  characters (an Isabelle \<open>char\<close> is one byte). \<open>ToLower\<close> is modelled on ASCII letters, bytes
  from 128 up are left as they are; \<open>TrimSpace\<close> knows the UTF-8 encodings of all Unicode spaces.
\<close>

named_theorems go_simps \<open>equations of the string and error helpers\<close>
named_theorems frame_simps \<open>fields an operation leaves alone\<close>

section \<open>Errors\<close>

text \<open>
  An error value: the two sentinel errors of package \<^verbatim>\<open>context\<close>, an error made by
  \<^verbatim>\<open>errors.New\<close> or \<^verbatim>\<open>fmt.Errorf\<close> without \<^verbatim>\<open>%w\<close>, and one that wraps another. The nil
  error is \<^term>\<open>None\<close>.
\<close>

datatype go_error =
    Canceled
  | DeadlineExceeded
  | Errorf string
  | Wrap string go_error

fun error_string :: "go_error \<Rightarrow> string" where
  "error_string Canceled = ''context canceled''"
| "error_string DeadlineExceeded = ''context deadline exceeded''"
| "error_string (Errorf m) = m"
| "error_string (Wrap m e) = m @ '': '' @ error_string e"

fun errors_is :: "go_error \<Rightarrow> go_error \<Rightarrow> bool" where
  "errors_is (Wrap m e) t = (Wrap m e = t \<or> errors_is e t)"
| "errors_is e t = (e = t)"

lemma errors_is_refl [simp]: "errors_is e e"
  by (cases e) auto

lemma errors_is_Errorf [simp]: "errors_is (Errorf m) t = (t = Errorf m)"
  by auto

section \<open>Strings\<close>

definition has_prefix :: "string \<Rightarrow> string \<Rightarrow> bool" where
  "has_prefix p s = (take (length p) s = p)"

lemma has_prefix_append [simp, go_simps]: "has_prefix p (p @ s)"
  by (simp add: has_prefix_def)

lemma has_prefix_Nil [simp, go_simps]: "has_prefix [] s"
  by (simp add: has_prefix_def)

lemma has_prefix_Cons [simp, go_simps]:
  "has_prefix (c # p) s = (case s of [] \<Rightarrow> False | d # s' \<Rightarrow> c = d \<and> has_prefix p s')"
  by (cases s) (auto simp: has_prefix_def)

lemma has_prefix_refl [simp, go_simps]: "has_prefix s s"
  by (induction s) auto

lemma has_prefix_iff: "has_prefix p s \<longleftrightarrow> (\<exists>r. s = p @ r)"
  by (metis append_eq_conv_conj append_take_drop_id has_prefix_def)

definition has_suffix :: "string \<Rightarrow> string \<Rightarrow> bool" where
  "has_suffix q s = has_prefix (rev q) (rev s)"

definition trim_prefix :: "string \<Rightarrow> string \<Rightarrow> string" where
  "trim_prefix p s = (if has_prefix p s then drop (length p) s else s)"

lemma trim_prefix_append [simp, go_simps]: "trim_prefix p (p @ s) = s"
  by (simp add: trim_prefix_def)

definition trim_suffix :: "string \<Rightarrow> string \<Rightarrow> string" where
  "trim_suffix q s = rev (trim_prefix (rev q) (rev s))"

text \<open>\<^verbatim>\<open>strings.CutPrefix\<close>: the rest, when the prefix is there.\<close>

definition cut_prefix :: "string \<Rightarrow> string \<Rightarrow> string option" where
  "cut_prefix p s = (if has_prefix p s then Some (drop (length p) s) else None)"

text \<open>\<^verbatim>\<open>strings.TrimLeft\<close>, \<^verbatim>\<open>TrimRight\<close> and \<^verbatim>\<open>Trim\<close> over a cut set of ASCII characters.\<close>

definition trim_left :: "char list \<Rightarrow> string \<Rightarrow> string" where
  "trim_left cs s = dropWhile (\<lambda>c. c \<in> set cs) s"

definition trim_right :: "char list \<Rightarrow> string \<Rightarrow> string" where
  "trim_right cs s = rev (dropWhile (\<lambda>c. c \<in> set cs) (rev s))"

definition trim :: "char list \<Rightarrow> string \<Rightarrow> string" where
  "trim cs s = trim_right cs (trim_left cs s)"

lemma trim_right_idem [simp, go_simps]: "trim_right cs (trim_right cs s) = trim_right cs s"
  by (simp add: trim_right_def)

lemma trim_right_snoc: "c \<notin> set cs \<Longrightarrow> trim_right cs (s @ [c]) = s @ [c]"
  by (simp add: trim_right_def)

lemma trim_right_last: "trim_right cs s = [] \<or> last (trim_right cs s) \<notin> set cs"
proof (cases "trim_right cs s = []")
  case False
  then have "dropWhile (\<lambda>c. c \<in> set cs) (rev s) \<noteq> []"
    by (simp add: trim_right_def)
  then have "hd (dropWhile (\<lambda>c. c \<in> set cs) (rev s)) \<notin> set cs"
    using hd_dropWhile by blast
  then show ?thesis
    by (simp add: trim_right_def last_rev)
qed simp

lemma trim_right_length: "length (trim_right cs s) \<le> length s"
  by (metis length_dropWhile_le length_rev trim_right_def)

lemma trim_right_prefix: "\<exists>r. s = trim_right cs s @ r"
proof -
  have "rev s = takeWhile (\<lambda>c. c \<in> set cs) (rev s) @ dropWhile (\<lambda>c. c \<in> set cs) (rev s)"
    by simp
  then have "s = rev (dropWhile (\<lambda>c. c \<in> set cs) (rev s)) @ rev (takeWhile (\<lambda>c. c \<in> set cs) (rev s))"
    by (metis rev_append rev_rev_ident)
  then show ?thesis
    unfolding trim_right_def by blast
qed

lemma set_trim_right: "set (trim_right cs s) \<subseteq> set s"
  by (metis Un_upper1 set_append trim_right_prefix)

lemma set_trim_left: "set (trim_left cs s) \<subseteq> set s"
  by (auto simp: trim_left_def dest: set_dropWhileD)

text \<open>The UTF-8 encodings of the characters \<^verbatim>\<open>unicode.IsSpace\<close> accepts.\<close>

definition go_spaces :: "string list" where
  "go_spaces =
     [[CHR 0x09], [CHR 0x0A], [CHR 0x0B], [CHR 0x0C], [CHR 0x0D], [CHR 0x20],
      [CHR 0xC2, CHR 0x85], [CHR 0xC2, CHR 0xA0], [CHR 0xE1, CHR 0x9A, CHR 0x80],
      [CHR 0xE2, CHR 0x80, CHR 0x80], [CHR 0xE2, CHR 0x80, CHR 0x81], [CHR 0xE2, CHR 0x80, CHR 0x82],
      [CHR 0xE2, CHR 0x80, CHR 0x83], [CHR 0xE2, CHR 0x80, CHR 0x84], [CHR 0xE2, CHR 0x80, CHR 0x85],
      [CHR 0xE2, CHR 0x80, CHR 0x86], [CHR 0xE2, CHR 0x80, CHR 0x87], [CHR 0xE2, CHR 0x80, CHR 0x88],
      [CHR 0xE2, CHR 0x80, CHR 0x89], [CHR 0xE2, CHR 0x80, CHR 0x8A], [CHR 0xE2, CHR 0x80, CHR 0xA8],
      [CHR 0xE2, CHR 0x80, CHR 0xA9], [CHR 0xE2, CHR 0x80, CHR 0xAF], [CHR 0xE2, CHR 0x81, CHR 0x9F],
      [CHR 0xE3, CHR 0x80, CHR 0x80]]"

text \<open>Dropping leading words of a list of words, as often as one of them is in front.\<close>

function drop_words :: "string list \<Rightarrow> string \<Rightarrow> string" where
  "drop_words ws s =
     (case find (\<lambda>w. w \<noteq> [] \<and> has_prefix w s) ws of
        None \<Rightarrow> s
      | Some w \<Rightarrow> drop_words ws (drop (length w) s))"
  by pat_completeness auto
termination
proof (relation "measure (\<lambda>(ws, s). length s)")
  fix ws s and w :: string
  assume "find (\<lambda>w. w \<noteq> [] \<and> has_prefix w s) ws = Some w"
  then have "w \<noteq> []" and "has_prefix w s"
    by (auto simp: find_Some_iff)
  then show "((ws, drop (length w) s), ws, s) \<in> measure (\<lambda>(ws, s). length s)"
    by (auto simp: has_prefix_iff)
qed simp

declare drop_words.simps [simp del]

definition trim_space :: "string \<Rightarrow> string" where
  "trim_space s = rev (drop_words (map rev go_spaces) (rev (drop_words go_spaces s)))"

lemma trim_space_Nil [simp, go_simps]: "trim_space [] = []"
  by (simp add: trim_space_def drop_words.simps [of _ "[]"] go_spaces_def)

text \<open>Trimming keeps a character that is part of no word it drops.\<close>

lemma drop_words_keeps: "c \<in> set s \<Longrightarrow> c \<notin> \<Union> (set ` set ws) \<Longrightarrow> c \<in> set (drop_words ws s)"
proof (induction ws s rule: drop_words.induct)
  case (1 ws s)
  show ?case
  proof (cases "find (\<lambda>w. w \<noteq> [] \<and> has_prefix w s) ws")
    case None
    with 1 show ?thesis by (simp add: drop_words.simps [of ws s])
  next
    case (Some w)
    then have w: "w \<in> set ws" "has_prefix w s" by (auto simp: find_Some_iff)
    then obtain r where r: "s = w @ r" by (auto simp: has_prefix_iff)
    with 1 w have "c \<in> set (drop (length w) s)" by auto
    with 1 Some show ?thesis by (simp add: drop_words.simps [of ws s])
  qed
qed

lemma trim_space_keeps:
  assumes "c \<in> set s" and "c \<notin> \<Union> (set ` set go_spaces)"
  shows "c \<in> set (trim_space s)"
proof -
  have "c \<notin> \<Union> (set ` set (map rev go_spaces))" using assms(2) by simp
  then show ?thesis
    using assms by (auto simp: trim_space_def intro!: drop_words_keeps)
qed

text \<open>\<^verbatim>\<open>strings.Index\<close>: where a substring first occurs.\<close>

fun str_index :: "string \<Rightarrow> string \<Rightarrow> nat option" where
  "str_index sub [] = (if sub = [] then Some 0 else None)"
| "str_index sub (c # s) =
     (if has_prefix sub (c # s) then Some 0 else map_option Suc (str_index sub s))"

definition str_contains :: "string \<Rightarrow> string \<Rightarrow> bool" where
  "str_contains s sub = (str_index sub s \<noteq> None)"

definition str_cut :: "string \<Rightarrow> string \<Rightarrow> string \<times> string \<times> bool" where
  "str_cut s sep =
     (case str_index sep s of
        None \<Rightarrow> (s, [], False)
      | Some i \<Rightarrow> (take i s, drop (i + length sep) s, True))"

lemma str_index_Some: "str_index sub s = Some i \<Longrightarrow> \<exists>r. s = take i s @ sub @ r"
proof (induction sub s arbitrary: i rule: str_index.induct)
  case (1 sub)
  then show ?case by (auto split: if_splits)
next
  case (2 sub c s)
  show ?case
  proof (cases "has_prefix sub (c # s)")
    case True
    with "2.prems" show ?thesis by (auto simp: has_prefix_iff)
  next
    case False
    with "2.prems" obtain j where j: "str_index sub s = Some j" "i = Suc j"
      by auto
    from "2.IH" [OF False j(1)] j(2) show ?thesis by auto
  qed
qed

text \<open>With a one-character separator the part before the cut does not contain it.\<close>

lemma str_index_char:
  "str_index [c] s = (if c \<in> set s then Some (length (takeWhile (\<lambda>d. d \<noteq> c) s)) else None)"
  by (induction s) auto

lemma str_cut_char:
  "str_cut s [c] =
     (if c \<in> set s
      then (takeWhile (\<lambda>d. d \<noteq> c) s, tl (dropWhile (\<lambda>d. d \<noteq> c) s), True)
      else (s, [], False))"
proof (cases "c \<in> set s")
  case True
  let ?k = "length (takeWhile (\<lambda>d. d \<noteq> c) s)"
  have "take ?k s = takeWhile (\<lambda>d. d \<noteq> c) s"
    by (metis takeWhile_eq_take)
  moreover have "drop (?k + 1) s = tl (dropWhile (\<lambda>d. d \<noteq> c) s)"
    by (simp add: dropWhile_eq_drop drop_Suc tl_drop)
  ultimately show ?thesis
    using True by (simp add: str_cut_def str_index_char)
qed (simp add: str_cut_def str_index_char)

lemma str_cut_glue [simp]: "c \<notin> set a \<Longrightarrow> str_cut (a @ c # b) [c] = (a, b, True)"
proof -
  assume c: "c \<notin> set a"
  have t: "takeWhile (\<lambda>d. d \<noteq> c) (a @ c # b) = a"
    using c by (induction a) auto
  have d: "dropWhile (\<lambda>d. d \<noteq> c) (a @ c # b) = c # b"
    using c by (induction a) auto
  show ?thesis by (simp add: str_cut_char t d)
qed

text \<open>\<^verbatim>\<open>strings.Split\<close> and \<^verbatim>\<open>strings.SplitSeq\<close> at one character, and \<^verbatim>\<open>strings.SplitN\<close>.\<close>

fun split_at :: "char \<Rightarrow> string \<Rightarrow> string list" where
  "split_at c [] = [[]]"
| "split_at c (d # s) =
     (if d = c then [] # split_at c s
      else (case split_at c s of [] \<Rightarrow> [[d]] | w # ws \<Rightarrow> (d # w) # ws))"

fun split_n :: "char \<Rightarrow> nat \<Rightarrow> string \<Rightarrow> string list" where
  "split_n c 0 s = []"
| "split_n c (Suc 0) s = [s]"
| "split_n c (Suc (Suc n)) s =
     (case str_cut s [c] of
        (before, after, found) \<Rightarrow> if found then before # split_n c (Suc n) after else [s])"

fun join :: "string \<Rightarrow> string list \<Rightarrow> string" where
  "join sep [] = []"
| "join sep [x] = x"
| "join sep (x # y # ys) = x @ sep @ join sep (y # ys)"

lemma split_at_not_Nil [simp]: "split_at c s \<noteq> []"
  by (induction c s rule: split_at.induct) (auto split: list.splits)

lemma join_split_at [simp, go_simps]: "join [c] (split_at c s) = s"
proof (induction s)
  case (Cons d s)
  obtain w ws where w: "split_at c s = w # ws"
    by (meson neq_Nil_conv split_at_not_Nil)
  show ?case
    using Cons w by (cases ws) auto
qed simp

lemma split_at_pieces: "w \<in> set (split_at c s) \<Longrightarrow> c \<notin> set w"
proof (induction s arbitrary: w)
  case (Cons d s)
  then show ?case by (auto split: if_splits list.splits)
qed simp

lemma split_at_single: "c \<notin> set s \<Longrightarrow> split_at c s = [s]"
  by (induction s) auto

lemma split_at_glue: "c \<notin> set a \<Longrightarrow> split_at c (a @ c # b) = a # split_at c b"
  by (induction a) auto

lemma split_at_join:
  "xs \<noteq> [] \<Longrightarrow> \<forall>x\<in>set xs. c \<notin> set x \<Longrightarrow> split_at c (join [c] xs) = xs"
proof (induction "[c]" xs rule: join.induct)
  case (2 x)
  then show ?case by (simp add: split_at_single)
next
  case (3 x y ys)
  then show ?case by (simp add: split_at_glue)
qed simp

lemma set_join: "set (join sep xs) \<subseteq> set sep \<union> (\<Union>x\<in>set xs. set x)"
  by (induction sep xs rule: join.induct) auto

section \<open>ASCII case\<close>

definition lower_char :: "char \<Rightarrow> char" where
  "lower_char c =
     (if 65 \<le> (of_char c :: nat) \<and> (of_char c :: nat) \<le> 90
      then char_of ((of_char c :: nat) + 32) else c)"

definition to_lower :: "string \<Rightarrow> string" where
  "to_lower s = map lower_char s"

text \<open>\<^verbatim>\<open>strings.EqualFold\<close> against an ASCII word none of whose letters folds to a non-ASCII one.\<close>

definition equal_fold :: "string \<Rightarrow> string \<Rightarrow> bool" where
  "equal_fold a b = (to_lower a = to_lower b)"

lemma length_to_lower [simp, go_simps]: "length (to_lower s) = length s"
  by (simp add: to_lower_def)

lemma lower_char_idem [simp]: "lower_char (lower_char c) = lower_char c"
proof (cases "65 \<le> (of_char c :: nat) \<and> (of_char c :: nat) \<le> 90")
  case True
  then have "(of_char (char_of ((of_char c :: nat) + 32) :: char) :: nat) = of_char c + 32"
    by simp
  with True show ?thesis
    by (auto simp: lower_char_def)
next
  case False
  then have "lower_char c = c"
    by (simp only: lower_char_def if_False)
  then show ?thesis by simp
qed

lemma to_lower_idem [simp, go_simps]: "to_lower (to_lower s) = to_lower s"
  by (simp add: to_lower_def)

section \<open>Integers\<close>

text \<open>An \<^verbatim>\<open>int64\<close> (and a \<^verbatim>\<open>time.Duration\<close>, which is one): the value wraps to 64 bits, signed.\<close>

definition i64 :: "int \<Rightarrow> int" where
  "i64 x = signed_take_bit 63 x"

definition in_i64 :: "int \<Rightarrow> bool" where
  "in_i64 x = (- (2 ^ 63) \<le> x \<and> x < 2 ^ 63)"

lemma i64_id: "in_i64 x \<Longrightarrow> i64 x = x"
  by (simp add: i64_def in_i64_def signed_take_bit_int_eq_self)

lemma in_i64_i64: "in_i64 (i64 x)"
  using signed_take_bit_int_greater_eq_minus_exp [of 63 x] signed_take_bit_int_less_exp [of 63 x]
  by (simp add: i64_def in_i64_def)

text \<open>\<^verbatim>\<open>strconv.FormatInt\<close>, \<^verbatim>\<open>strconv.Itoa\<close> and \<^verbatim>\<open>%d\<close>; \<^verbatim>\<open>strconv.ParseInt(s, 10, 64)\<close>.\<close>

definition digit_char :: "nat \<Rightarrow> char" where
  "digit_char n = char_of (48 + n)"

definition digit_val :: "char \<Rightarrow> nat option" where
  "digit_val c =
     (let n = (of_char c :: nat) in if 48 \<le> n \<and> n \<le> 57 then Some (n - 48) else None)"

fun nat_digits :: "nat \<Rightarrow> string" where
  "nat_digits n =
     (if n < 10 then [digit_char n] else nat_digits (n div 10) @ [digit_char (n mod 10)])"

declare nat_digits.simps [simp del]

definition itoa :: "int \<Rightarrow> string" where
  "itoa i = (if i < 0 then CHR ''-'' # nat_digits (nat (- i)) else nat_digits (nat i))"

fun digits_val :: "nat \<Rightarrow> string \<Rightarrow> nat option" where
  "digits_val acc [] = Some acc"
| "digits_val acc (c # s) =
     (case digit_val c of None \<Rightarrow> None | Some d \<Rightarrow> digits_val (10 * acc + d) s)"

definition parse_uint :: "string \<Rightarrow> nat option" where
  "parse_uint s =
     (if s = [] then None
      else case digits_val 0 s of
             None \<Rightarrow> None
           | Some n \<Rightarrow> if n < 2 ^ 64 then Some n else None)"

definition parse_int :: "string \<Rightarrow> int option" where
  "parse_int s =
     (case s of
        [] \<Rightarrow> None
      | c # s' \<Rightarrow>
          (let neg = (c = CHR ''-'');
               body = (if c = CHR ''-'' \<or> c = CHR ''+'' then s' else s)
           in case parse_uint body of
                None \<Rightarrow> None
              | Some n \<Rightarrow>
                  if neg then (if n \<le> 2 ^ 63 then Some (- int n) else None)
                  else (if n < 2 ^ 63 then Some (int n) else None)))"

lemma digit_val_digit_char: "n < 10 \<Longrightarrow> digit_val (digit_char n) = Some n"
  by (simp add: digit_val_def digit_char_def)

lemma nat_digits_not_Nil [simp]: "nat_digits n \<noteq> []"
  by (subst nat_digits.simps) simp

lemma digits_val_append:
  "digits_val acc (s @ t) = (case digits_val acc s of None \<Rightarrow> None | Some m \<Rightarrow> digits_val m t)"
  by (induction acc s rule: digits_val.induct) (auto split: option.splits)

lemma digits_val_nat_digits: "digits_val 0 (nat_digits n) = Some n"
proof (induction n rule: nat_digits.induct)
  case (1 n)
  show ?case
  proof (cases "n < 10")
    case True
    then show ?thesis by (simp add: nat_digits.simps [of n] digit_val_digit_char)
  next
    case False
    with "1" have "digits_val 0 (nat_digits (n div 10)) = Some (n div 10)" by simp
    with False show ?thesis
      by (simp add: nat_digits.simps [of n] digits_val_append digit_val_digit_char)
  qed
qed

lemma digit_char_neq [simp]:
  "n < 10 \<Longrightarrow> digit_char n \<noteq> CHR ''-''" "n < 10 \<Longrightarrow> digit_char n \<noteq> CHR ''+''"
  using digit_val_digit_char [of n] by (auto simp: digit_val_def)

lemma set_nat_digits: "c \<in> set (nat_digits n) \<Longrightarrow> \<exists>d<10. c = digit_char d"
proof (induction n rule: nat_digits.induct)
  case (1 n)
  then show ?case
    by (cases "n < 10") (auto simp: nat_digits.simps [of n] intro: exI [of _ "n mod 10"])
qed

lemma nat_digits_no_sign: "nat_digits n = c # s \<Longrightarrow> c \<noteq> CHR ''-'' \<and> c \<noteq> CHR ''+''"
  using set_nat_digits [of c n] by (metis digit_char_neq list.set_intros(1))

lemma nat_digits_digit: "c \<in> set (nat_digits n) \<Longrightarrow> digit_val c \<noteq> None"
  using set_nat_digits [of c n] digit_val_digit_char by auto

lemma itoa_chars: "digit_val c = None \<Longrightarrow> c \<noteq> CHR ''-'' \<Longrightarrow> c \<notin> set (itoa i)"
  by (auto simp: itoa_def dest: nat_digits_digit)

lemma parse_uint_nat_digits: "n < 2 ^ 64 \<Longrightarrow> parse_uint (nat_digits n) = Some n"
  by (simp add: parse_uint_def digits_val_nat_digits)

lemma parse_int_itoa: "in_i64 i \<Longrightarrow> parse_int (itoa i) = Some i"
proof (cases "i < 0")
  case True
  assume "in_i64 i"
  with True have "nat (- i) \<le> 2 ^ 63" by (auto simp: in_i64_def)
  with True show ?thesis
    by (simp add: itoa_def parse_int_def parse_uint_nat_digits)
next
  case False
  assume "in_i64 i"
  with False have b: "nat i < 2 ^ 63" by (auto simp: in_i64_def)
  obtain c s where cs: "nat_digits (nat i) = c # s"
    by (meson neq_Nil_conv nat_digits_not_Nil)
  with nat_digits_no_sign [OF cs] b False parse_uint_nat_digits [of "nat i"] show ?thesis
    by (simp add: itoa_def parse_int_def)
qed

lemma itoa_inj: "in_i64 i \<Longrightarrow> in_i64 j \<Longrightarrow> itoa i = itoa j \<Longrightarrow> i = j"
  by (metis option.inject parse_int_itoa)

lemma parse_uint_bound: "parse_uint s = Some n \<Longrightarrow> n < 2 ^ 64"
  by (auto simp: parse_uint_def split: if_splits option.splits)

lemma parse_int_bound: "parse_int s = Some i \<Longrightarrow> in_i64 i"
  by (auto simp: parse_int_def in_i64_def Let_def split: list.splits option.splits if_splits)

end
