(* ===== verification/Labels.thy ===== *)
theory Labels
  imports GoPrelude
begin

text \<open>
  Runner labels, \<^verbatim>\<open>internal/pkg/labels/labels.go\<close>: the parser of \<^verbatim>\<open>name:schema:arg\<close>
  strings, the printer that gives them back, and the choice of the platform (the execution
  backend and its image) for a job's \<^verbatim>\<open>runs-on\<close> values.
\<close>

section \<open>Labels and their parser\<close>

definition SchemeHost :: string where "SchemeHost = ''host''"
definition SchemeDocker :: string where "SchemeDocker = ''docker''"
definition SchemeKubernetes :: string where "SchemeKubernetes = ''kubernetes''"

lemmas scheme_defs = SchemeHost_def SchemeDocker_def SchemeKubernetes_def

record Label =
  Name :: string
  Schema :: string
  Arg :: string
  Opaque :: bool

definition Parse :: "string \<Rightarrow> go_error + Label" where
  "Parse str =
     (if str = [] then Inl (Errorf ''empty label'')
      else
        (let splits = split_n CHR '':'' 3 str;
             label = \<lparr>Name = splits ! 0, Schema = SchemeHost, Arg = [], Opaque = False\<rparr>;
             label = (if 2 \<le> length splits then label\<lparr>Schema := splits ! 1\<rparr> else label);
             label = (if 3 \<le> length splits then label\<lparr>Arg := splits ! 2\<rparr> else label)
         in if Schema label \<noteq> SchemeHost \<and> Schema label \<noteq> SchemeDocker
               \<and> Schema label \<noteq> SchemeKubernetes
            then Inr \<lparr>Name = str, Schema = SchemeHost, Arg = [], Opaque = True\<rparr>
            else Inr label))"

definition RequireDocker :: "Label list \<Rightarrow> bool" where
  "RequireDocker l = (\<exists>label\<in>set l. Schema label = SchemeDocker)"

definition RequireKubernetes :: "Label list \<Rightarrow> bool" where
  "RequireKubernetes l = (\<exists>label\<in>set l. Schema label = SchemeKubernetes)"

section \<open>Choosing a platform\<close>

definition schemePrefixed :: "string \<Rightarrow> string \<Rightarrow> string" where
  "schemePrefixed scheme arg =
     (let image = trim_prefix ''//'' arg in if image = [] then [] else scheme @ image)"

text \<open>One round of the loop that fills the table; an unknown schema is skipped.\<close>

definition add_platform :: "Label \<Rightarrow> (string \<rightharpoonup> string) \<Rightarrow> (string \<rightharpoonup> string)" where
  "add_platform label platforms =
     (if Schema label = SchemeDocker
      then platforms(Name label \<mapsto> schemePrefixed ''docker://'' (Arg label))
      else if Schema label = SchemeKubernetes
      then platforms(Name label \<mapsto> schemePrefixed ''kubernetes://'' (Arg label))
      else if Schema label = SchemeHost
      then platforms(Name label \<mapsto> ''-self-hosted'')
      else platforms)"

fun first_platform :: "(string \<rightharpoonup> string) \<Rightarrow> string list \<Rightarrow> string option" where
  "first_platform platforms [] = None"
| "first_platform platforms (v # vs) =
     (case platforms v of Some p \<Rightarrow> Some p | None \<Rightarrow> first_platform platforms vs)"

definition default_platform :: string where
  "default_platform = ''docker.gitea.com/runner-images:ubuntu-latest''"

definition PickPlatform :: "Label list \<Rightarrow> string list \<Rightarrow> string" where
  "PickPlatform l runsOn =
     (case first_platform (fold add_platform l Map.empty) runsOn of
        Some p \<Rightarrow> p
      | None \<Rightarrow> default_platform)"

definition Names :: "Label list \<Rightarrow> string list" where
  "Names l = map Name l"

definition label_string :: "Label \<Rightarrow> string" where
  "label_string label =
     (if \<not> Opaque label \<and> Schema label \<noteq> []
      then Name label @ '':'' @ Schema label @ (if Arg label \<noteq> [] then '':'' @ Arg label else [])
      else Name label)"

definition ToStrings :: "Label list \<Rightarrow> string list" where
  "ToStrings l = map label_string l"

section \<open>What the parser produces\<close>

text \<open>
  The labels the parser can return: a name without a colon and a known schema (a label without
  an argument keeps none), or an opaque name kept whole.
\<close>

definition known_schema :: "string \<Rightarrow> bool" where
  "known_schema s = (s = SchemeHost \<or> s = SchemeDocker \<or> s = SchemeKubernetes)"

lemma known_schema_no_colon: "known_schema s \<Longrightarrow> CHR '':'' \<notin> set s \<and> s \<noteq> []"
  by (auto simp: known_schema_def scheme_defs)

lemma split_n3:
  "split_n c 3 s =
     (if c \<notin> set s then [s]
      else let a = takeWhile (\<lambda>d. d \<noteq> c) s; r = tl (dropWhile (\<lambda>d. d \<noteq> c) s)
           in if c \<notin> set r then [a, r]
              else [a, takeWhile (\<lambda>d. d \<noteq> c) r, tl (dropWhile (\<lambda>d. d \<noteq> c) r)])"
  by (simp add: numeral_3_eq_3 str_cut_char Let_def)

lemma takeWhile_no_char: "c \<notin> set (takeWhile (\<lambda>d. d \<noteq> c) s)"
  by (auto dest: set_takeWhileD)

lemma Parse_cases:
  assumes "Parse str = Inr l"
  obtains (opaque) "l = \<lparr>Name = str, Schema = SchemeHost, Arg = [], Opaque = True\<rparr>"
  | (plain) "\<not> Opaque l" "known_schema (Schema l)" "CHR '':'' \<notin> set (Name l)"
proof (cases "2 \<le> length (split_n CHR '':'' 3 str) \<and> \<not> known_schema (split_n CHR '':'' 3 str ! 1)")
  case True
  with assms have "l = \<lparr>Name = str, Schema = SchemeHost, Arg = [], Opaque = True\<rparr>"
    by (auto simp: Parse_def Let_def known_schema_def split: if_splits)
  then show ?thesis by (rule opaque)
next
  case False
  with assms have "\<not> Opaque l" "known_schema (Schema l)" "CHR '':'' \<notin> set (Name l)"
    by (auto simp: Parse_def Let_def known_schema_def split_n3 scheme_defs takeWhile_no_char
        split: if_splits)
  then show ?thesis by (rule plain)
qed

lemma Parse_schema: "Parse str = Inr l \<Longrightarrow> known_schema (Schema l)"
  by (erule Parse_cases) (auto simp: known_schema_def)

text \<open>Printing a plain label and reading it back.\<close>

lemma Parse_plain:
  assumes "CHR '':'' \<notin> set n" and k: "known_schema s"
  shows "Parse (n @ '':'' @ s @ (if a \<noteq> [] then '':'' @ a else [])) =
         Inr \<lparr>Name = n, Schema = s, Arg = a, Opaque = False\<rparr>"
proof -
  have s: "CHR '':'' \<notin> set s" using known_schema_no_colon [OF k] by simp
  have "split_n CHR '':'' 3 (n @ '':'' @ s @ (if a \<noteq> [] then '':'' @ a else [])) =
        (if a \<noteq> [] then [n, s, a] else [n, s])"
    using assms(1) s by (simp add: numeral_3_eq_3 str_cut_char takeWhile_append dropWhile_append)
  moreover have "n @ '':'' @ s @ (if a \<noteq> [] then '':'' @ a else []) \<noteq> []" by simp
  ultimately show ?thesis
    using k by (simp add: Parse_def Let_def known_schema_def)
qed

text \<open>The platform table: the last label of a name wins.\<close>

definition label_platform :: "Label \<Rightarrow> string" where
  "label_platform label =
     (if Schema label = SchemeDocker then schemePrefixed ''docker://'' (Arg label)
      else if Schema label = SchemeKubernetes then schemePrefixed ''kubernetes://'' (Arg label)
      else ''-self-hosted'')"

lemma add_platform_known:
  "known_schema (Schema label) \<Longrightarrow>
     add_platform label m = m(Name label \<mapsto> label_platform label)"
  by (auto simp: add_platform_def label_platform_def known_schema_def scheme_defs)

lemma platforms_lookup:
  "\<forall>label\<in>set l. known_schema (Schema label) \<Longrightarrow>
   fold add_platform l m v =
     (if \<exists>label\<in>set l. Name label = v
      then Some (label_platform (last (filter (\<lambda>label. Name label = v) l)))
      else m v)"
proof (induction l arbitrary: m)
  case (Cons x l)
  then have x: "known_schema (Schema x)" by simp
  have "fold add_platform (x # l) m v = fold add_platform l (m(Name x \<mapsto> label_platform x)) v"
    by (simp add: add_platform_known [OF x])
  also have "\<dots> = (if \<exists>label\<in>set l. Name label = v
      then Some (label_platform (last (filter (\<lambda>label. Name label = v) l)))
      else (m(Name x \<mapsto> label_platform x)) v)"
    using Cons by simp
  finally show ?case by (auto simp: filter_empty_conv)
qed simp

lemma first_platform_find:
  "(\<And>v. m v = (if v \<in> A then Some (f v) else None)) \<Longrightarrow>
   first_platform m vs = map_option f (find (\<lambda>v. v \<in> A) vs)"
  by (induction vs) auto

section \<open>Properties\<close>

text \<open>
  C28: a label the parser accepted, printed by \<^verbatim>\<open>ToStrings\<close>, parses to the same label again:
  registration and the stored registration file lose nothing.
\<close>

theorem parse_label_roundtrip: "Parse str = Inr l \<Longrightarrow> map Parse (ToStrings [l]) = [Inr l]"
proof -
  assume p: "Parse str = Inr l"
  then show ?thesis
  proof (cases rule: Parse_cases)
    case opaque
    then show ?thesis using p by (simp add: ToStrings_def label_string_def)
  next
    case plain
    then have "Schema l \<noteq> []" using known_schema_no_colon by blast
    then have "label_string l =
        Name l @ '':'' @ Schema l @ (if Arg l \<noteq> [] then '':'' @ Arg l else [])"
      using plain by (simp add: label_string_def)
    then show ?thesis
      using Parse_plain [of "Name l" "Schema l" "Arg l"] plain by (simp add: ToStrings_def)
  qed
qed

theorem parse_label_roundtrip_witness:
  "Parse ''gpu:docker://img:v1'' = Inr \<lparr>Name = ''gpu'', Schema = ''docker'', Arg = ''//img:v1'', Opaque = False\<rparr> \<and>
   map Parse (ToStrings [\<lparr>Name = ''gpu'', Schema = ''docker'', Arg = ''//img:v1'', Opaque = False\<rparr>]) =
     [Inr \<lparr>Name = ''gpu'', Schema = ''docker'', Arg = ''//img:v1'', Opaque = False\<rparr>]"
proof -
  have "Parse ''gpu:docker://img:v1'' =
      Inr \<lparr>Name = ''gpu'', Schema = ''docker'', Arg = ''//img:v1'', Opaque = False\<rparr>"
    by (simp add: Parse_def Let_def split_n3 scheme_defs)
  with parse_label_roundtrip [OF this] show ?thesis by simp
qed

text \<open>
  \<^verbatim>\<open>PickPlatform\<close> takes the first \<^verbatim>\<open>runs-on\<close> value that names a label, and of the labels
  with that name the last one, whose schema decides the backend; without any, the default image.
\<close>

theorem PickPlatform_spec:
  assumes "\<forall>label\<in>set l. \<exists>str. Parse str = Inr label"
  shows "PickPlatform l runsOn =
     (case find (\<lambda>v. v \<in> set (Names l)) runsOn of
        None \<Rightarrow> default_platform
      | Some v \<Rightarrow> label_platform (last (filter (\<lambda>label. Name label = v) l)))"
proof -
  have known: "\<forall>label\<in>set l. known_schema (Schema label)"
    using assms Parse_schema by blast
  have "fold add_platform l Map.empty v =
      (if v \<in> set (Names l)
       then Some (label_platform (last (filter (\<lambda>label. Name label = v) l))) else None)" for v
    using platforms_lookup [OF known, of Map.empty v] by (auto simp: Names_def)
  from first_platform_find [OF this] show ?thesis
    by (simp add: PickPlatform_def split: option.splits)
qed

theorem PickPlatform_spec_witness:
  "Parse ''gpu:docker://img'' = Inr \<lparr>Name = ''gpu'', Schema = ''docker'', Arg = ''//img'', Opaque = False\<rparr> \<and>
   PickPlatform [\<lparr>Name = ''gpu'', Schema = ''docker'', Arg = ''//img'', Opaque = False\<rparr>]
     [''linux'', ''gpu''] = ''docker://img''"
proof -
  let ?l = "\<lparr>Name = ''gpu'', Schema = ''docker'', Arg = ''//img'', Opaque = False\<rparr>"
  have p: "Parse ''gpu:docker://img'' = Inr ?l"
    by (simp add: Parse_def Let_def split_n3 scheme_defs)
  then have "\<forall>label\<in>set [?l]. \<exists>str. Parse str = Inr label" by auto
  from PickPlatform_spec [OF this, of "[''linux'', ''gpu'']"] p show ?thesis
    by (simp add: Names_def label_platform_def schemePrefixed_def scheme_defs trim_prefix_def)
qed

end
