(* ===== verification/Executor.thy ===== *)
theory Executor
  imports GoPrelude "HOL-Library.Multiset"
begin

text \<open>
  Contexts and executors, \<^verbatim>\<open>act/common/executor.go\<close> and \<^verbatim>\<open>act/common/job_error.go\<close>: the
  combinators every job is assembled from. An executor takes a context and the state of the world
  and returns an error (or \<^term>\<open>None\<close> for nil) and the new state.
\<close>

section \<open>Contexts\<close>

text \<open>
  A context descends from cancellation sources (a \<^verbatim>\<open>cancel\<close> function or a deadline), by
  number, and may carry a job-error container. The world records the sources that have fired, in
  the order they did, each with the error it gives its context; the container is a reference to a
  cell, because \<^verbatim>\<open>SetJobError\<close> writes through it.
\<close>

record ctx =
  sources :: "nat list"
  error_container :: "nat option"

record go_world =
  fired :: "(nat \<times> go_error) list"
  next_source :: nat
  error_cells :: "nat \<rightharpoonup> go_error"
  next_cell :: nat

text \<open>\<^verbatim>\<open>ctx.Err()\<close>: the first of the context's sources to have fired decides.\<close>

definition ctx_Err :: "ctx \<Rightarrow> 'a go_world_scheme \<Rightarrow> go_error option" where
  "ctx_Err ctx w =
     (case find (\<lambda>(i, e). i \<in> set (sources ctx)) (fired w) of
        None \<Rightarrow> None
      | Some (i, e) \<Rightarrow> Some e)"

definition Background :: ctx where
  "Background = \<lparr>sources = [], error_container = None\<rparr>"

text \<open>\<^verbatim>\<open>context.WithTimeout\<close>: a new source; a timeout that is not positive has fired already.\<close>

definition WithTimeout :: "ctx \<Rightarrow> int \<Rightarrow> 'a go_world_scheme \<Rightarrow> ctx \<times> 'a go_world_scheme" where
  "WithTimeout ctx d w =
     (ctx\<lparr>sources := next_source w # sources ctx\<rparr>,
      w\<lparr>next_source := Suc (next_source w),
        fired := (if d \<le> 0 then fired w @ [(next_source w, DeadlineExceeded)] else fired w)\<rparr>)"

definition WithoutCancel :: "ctx \<Rightarrow> ctx" where
  "WithoutCancel ctx = ctx\<lparr>sources := []\<rparr>"

text \<open>The environment fires a source: a server cancel or a passed deadline.\<close>

definition fire :: "nat \<Rightarrow> go_error \<Rightarrow> 'a go_world_scheme \<Rightarrow> 'a go_world_scheme" where
  "fire i e w = w\<lparr>fired := fired w @ [(i, e)]\<rparr>"

definition JobError :: "ctx \<Rightarrow> 'a go_world_scheme \<Rightarrow> go_error option" where
  "JobError ctx w =
     (case error_container ctx of None \<Rightarrow> None | Some c \<Rightarrow> error_cells w c)"

definition SetJobError :: "ctx \<Rightarrow> go_error option \<Rightarrow> 'a go_world_scheme \<Rightarrow> 'a go_world_scheme" where
  "SetJobError ctx err w =
     (case error_container ctx of
        None \<Rightarrow> w
      | Some c \<Rightarrow> w\<lparr>error_cells := (error_cells w)(c := err)\<rparr>)"

definition WithJobErrorContainer :: "ctx \<Rightarrow> 'a go_world_scheme \<Rightarrow> ctx \<times> 'a go_world_scheme" where
  "WithJobErrorContainer ctx w =
     (ctx\<lparr>error_container := Some (next_cell w)\<rparr>,
      w\<lparr>next_cell := Suc (next_cell w), error_cells := (error_cells w)(next_cell w := None)\<rparr>)"

section \<open>Executors\<close>

type_synonym 'w executor = "ctx \<Rightarrow> 'w \<Rightarrow> go_error option \<times> 'w"
type_synonym 'w conditional = "ctx \<Rightarrow> 'w \<Rightarrow> bool"

text \<open>An executor that only logs; the log line is not part of the state.\<close>

definition NewInfoExecutor :: "string \<Rightarrow> 'w executor" where
  "NewInfoExecutor msg = (\<lambda>ctx w. (None, w))"

definition NewDebugExecutor :: "string \<Rightarrow> 'w executor" where
  "NewDebugExecutor msg = (\<lambda>ctx w. (None, w))"

definition NewErrorExecutor :: "go_error \<Rightarrow> 'w executor" where
  "NewErrorExecutor err = (\<lambda>ctx w. (Some err, w))"

definition Then ::
  "'a go_world_scheme executor \<Rightarrow> 'a go_world_scheme executor \<Rightarrow> 'a go_world_scheme executor" where
  "Then e t = (\<lambda>ctx w.
     case e ctx w of
       (Some err, w') \<Rightarrow> (Some err, w')
     | (None, w') \<Rightarrow>
         (case ctx_Err ctx w' of
            Some err \<Rightarrow> (Some err, w')
          | None \<Rightarrow> t ctx w'))"

fun NewPipelineExecutor :: "'a go_world_scheme executor list \<Rightarrow> 'a go_world_scheme executor" where
  "NewPipelineExecutor [] = (\<lambda>ctx w. (None, w))"
| "NewPipelineExecutor (e # es) = foldl Then e es"

definition NewConditionalExecutor ::
  "'w conditional \<Rightarrow> 'w executor option \<Rightarrow> 'w executor option \<Rightarrow> 'w executor" where
  "NewConditionalExecutor conditional trueExecutor falseExecutor = (\<lambda>ctx w.
     case (if conditional ctx w then trueExecutor else falseExecutor) of
       None \<Rightarrow> (None, w)
     | Some e \<Rightarrow> e ctx w)"

definition If_exec :: "'w executor \<Rightarrow> 'w conditional \<Rightarrow> 'w executor" where
  "If_exec e conditional = (\<lambda>ctx w. if conditional ctx w then e ctx w else (None, w))"

definition IfNot_exec :: "'w executor \<Rightarrow> 'w conditional \<Rightarrow> 'w executor" where
  "IfNot_exec e conditional = (\<lambda>ctx w. if \<not> conditional ctx w then e ctx w else (None, w))"

definition IfBool_exec :: "'w executor \<Rightarrow> bool \<Rightarrow> 'w executor" where
  "IfBool_exec e b = If_exec e (\<lambda>ctx w. b)"

definition Not_cond :: "'w conditional \<Rightarrow> 'w conditional" where
  "Not_cond c = (\<lambda>ctx w. \<not> c ctx w)"

text \<open>\<^verbatim>\<open>%v\<close> of an error that may be nil.\<close>

definition show_error :: "go_error option \<Rightarrow> string" where
  "show_error err = (case err of None \<Rightarrow> ''<nil>'' | Some e \<Rightarrow> error_string e)"

definition Finally :: "'w executor \<Rightarrow> 'w executor \<Rightarrow> 'w executor" where
  "Finally e f = (\<lambda>ctx w.
     case e ctx w of
       (err, w1) \<Rightarrow>
         (case f ctx w1 of
            (Some err2, w2) \<Rightarrow>
              (Some (Errorf (''Error occurred running finally: '' @ error_string err2 @
                 '' (original error: '' @ show_error err @ '')'')), w2)
          | (None, w2) \<Rightarrow> (err, w2)))"

section \<open>The parallel executor\<close>

text \<open>
  A worker's executor may panic (\<^term>\<open>Inl\<close> with the panic value); the worker recovers and
  reports the panic as an error. Workers take the executors from a channel in order and report to
  another; \<open>order\<close> is the order in which they finish, and each runs as one step of the model.
\<close>

type_synonym 'w worker = "ctx \<Rightarrow> 'w \<Rightarrow> (string + go_error option) \<times> 'w"

definition recovered :: "'w worker \<Rightarrow> 'w executor" where
  "recovered x = (\<lambda>ctx w.
     case x ctx w of
       (Inl r, w') \<Rightarrow> (Some (Errorf (''panic: '' @ r)), w')
     | (Inr err, w') \<Rightarrow> (err, w'))"

fun run_workers :: "'w executor list \<Rightarrow> ctx \<Rightarrow> 'w \<Rightarrow> go_error option list \<times> 'w" where
  "run_workers [] ctx w = ([], w)"
| "run_workers (e # es) ctx w =
     (case e ctx w of (err, w1) \<Rightarrow> (case run_workers es ctx w1 of (errs, w2) \<Rightarrow> (err # errs, w2)))"

fun first_error :: "go_error option \<Rightarrow> go_error option list \<Rightarrow> go_error option" where
  "first_error acc [] = acc"
| "first_error acc (err # errs) = first_error (if acc = None then err else acc) errs"

text \<open>
  With \<open>p\<close> workers at most \<open>p + k\<close> executors have been started when the \<open>k\<close>-th one finishes.
\<close>

definition valid_order :: "int \<Rightarrow> nat \<Rightarrow> nat list \<Rightarrow> bool" where
  "valid_order limit n order =
     (distinct order \<and> set order = {..<n} \<and>
      (\<forall>k<length order. int (order ! k) < max 1 limit + int k))"

definition NewParallelExecutor ::
  "nat list \<Rightarrow> 'a go_world_scheme worker list \<Rightarrow> 'a go_world_scheme executor" where
  "NewParallelExecutor order executors = (\<lambda>ctx w.
     if executors = [] then (ctx_Err ctx w, w)
     else
       (case run_workers (map (\<lambda>i. recovered (executors ! i)) order) ctx w of
          (errs, w') \<Rightarrow>
            (case ctx_Err ctx w' of
               Some err \<Rightarrow> (Some err, w')
             | None \<Rightarrow> (first_error None errs, w'))))"

section \<open>Relations every executor respects\<close>

text \<open>
  A contract on executors: a reflexive and transitive relation between the world before and after.
  Whatever executors respect it, what the combinators build from them does too.
\<close>

locale exec_rel =
  fixes R :: "'a go_world_scheme \<Rightarrow> 'a go_world_scheme \<Rightarrow> bool"
  assumes R_refl: "R w w"
    and R_trans: "R w1 w2 \<Longrightarrow> R w2 w3 \<Longrightarrow> R w1 w3"
begin

lemma Then_rel:
  assumes "\<And>ctx w. R w (snd (e ctx w))" and "\<And>ctx w. R w (snd (t ctx w))"
  shows "R w (snd (Then e t ctx w))"
proof -
  obtain err w' where e: "e ctx w = (err, w')" by fastforce
  with assms(1) [of w ctx] have w': "R w w'" by simp
  show ?thesis
  proof (cases "err = None \<and> ctx_Err ctx w' = None")
    case True
    with e have "Then e t ctx w = t ctx w'" by (simp add: Then_def)
    with R_trans [OF w' assms(2)] show ?thesis by simp
  next
    case False
    with e have "snd (Then e t ctx w) = w'" by (auto simp: Then_def split: option.splits)
    with w' show ?thesis by simp
  qed
qed

lemma foldl_Then_rel:
  "(\<And>ctx w. R w (snd (e ctx w))) \<Longrightarrow> (\<And>x ctx w. x \<in> set es \<Longrightarrow> R w (snd (x ctx w))) \<Longrightarrow>
   R w (snd (foldl Then e es ctx w))"
proof (induction es arbitrary: e)
  case (Cons x es)
  show ?case
    using Cons.prems by (auto intro!: Cons.IH Then_rel)
qed simp

lemma pipeline_rel:
  assumes "\<And>x ctx w. x \<in> set es \<Longrightarrow> R w (snd (x ctx w))"
  shows "R w (snd (NewPipelineExecutor es ctx w))"
  using assms by (cases es) (auto simp: R_refl intro: foldl_Then_rel)

lemma Finally_rel:
  assumes "\<And>ctx w. R w (snd (e ctx w))" and "\<And>ctx w. R w (snd (f ctx w))"
  shows "R w (snd (Finally e f ctx w))"
proof -
  obtain err w1 err2 w2 where e: "e ctx w = (err, w1)" and f: "f ctx w1 = (err2, w2)"
    by fastforce
  have "snd (Finally e f ctx w) = w2"
    by (cases err2) (simp_all add: Finally_def e f)
  with R_trans [OF assms(1) [of w ctx, unfolded e snd_conv] assms(2) [of w1 ctx, unfolded f snd_conv]]
  show ?thesis by simp
qed

lemma run_workers_rel:
  "(\<And>x ctx w. x \<in> set es \<Longrightarrow> R w (snd (x ctx w))) \<Longrightarrow> R w (snd (run_workers es ctx w))"
proof (induction es arbitrary: w)
  case (Cons x es)
  obtain err w1 where x: "x ctx w = (err, w1)" by fastforce
  have "R w w1" using Cons.prems [of x w ctx] x by simp
  moreover have "R w1 (snd (run_workers es ctx w1))" using Cons by simp
  ultimately show ?case
    using R_trans x by (auto split: prod.splits)
qed (simp add: R_refl)

end

text \<open>The contract at work: no executor takes back a cancellation.\<close>

definition fired_grows :: "'a go_world_scheme \<Rightarrow> 'a go_world_scheme \<Rightarrow> bool" where
  "fired_grows w w' = (\<exists>l. fired w' = fired w @ l)"

interpretation fg: exec_rel fired_grows
  by unfold_locales (auto simp: fired_grows_def)

lemma find_append: "find P (xs @ ys) = (case find P xs of None \<Rightarrow> find P ys | Some x \<Rightarrow> Some x)"
  by (induction xs) auto

lemma ctx_Err_sticky: "ctx_Err ctx w = Some e \<Longrightarrow> fired_grows w w' \<Longrightarrow> ctx_Err ctx w' = Some e"
  by (auto simp: ctx_Err_def fired_grows_def find_append split: option.splits)

section \<open>Facts about the combinators\<close>

lemma Then_assoc: "Then (Then a b) c = Then a (Then b c)"
  by (rule ext, rule ext) (auto simp: Then_def split: prod.splits option.splits)

lemma foldl_Then: "foldl Then e (x # es) = Then e (foldl Then x es)"
proof (induction es arbitrary: x)
  case (Cons y es)
  have "foldl Then e (x # y # es) = foldl Then (Then e (Then x y)) es"
    by (simp add: Then_assoc)
  then show ?case using Cons [of "Then x y"] by simp
qed simp

lemma pipeline_Cons:
  "NewPipelineExecutor (e # es) =
     (if es = [] then e else Then e (NewPipelineExecutor es))"
  by (cases es) (simp_all add: foldl_Then del: foldl.simps(2))

declare NewPipelineExecutor.simps(2) [simp del]

lemma WithoutCancel_Err [simp]: "ctx_Err (WithoutCancel ctx) w = None"
proof -
  have "find (\<lambda>(i, e). False) xs = None" for xs :: "(nat \<times> go_error) list"
    by (induction xs) auto
  then show ?thesis by (simp add: ctx_Err_def WithoutCancel_def)
qed

lemma Background_Err [simp]: "ctx_Err Background w = None"
  using WithoutCancel_Err [of Background w] by (simp add: WithoutCancel_def Background_def)

lemma first_error_acc: "first_error acc errs = (if acc = None then first_error None errs else acc)"
proof (induction errs arbitrary: acc)
  case (Cons err errs)
  show ?case
    using Cons [of err] Cons [of acc] by (cases acc) auto
qed simp

lemma first_error_None_iff: "first_error None errs = None \<longleftrightarrow> (\<forall>err\<in>set errs. err = None)"
proof (induction errs)
  case (Cons err errs)
  then show ?case by (cases err) (auto simp: first_error_acc [of "Some _"])
qed simp

lemma first_error_in: "first_error None errs = Some e \<Longrightarrow> Some e \<in> set errs"
proof (induction errs)
  case (Cons err errs)
  then show ?case by (cases err) (auto simp: first_error_acc [of "Some _"])
qed simp

lemma run_workers_length: "length (fst (run_workers es ctx w)) = length es"
proof (induction es arbitrary: w)
  case (Cons e es)
  show ?case
    using Cons [of "snd (e ctx w)"]
    by (cases "e ctx w"; cases "run_workers es ctx (snd (e ctx w))") simp
qed simp

lemma valid_order_sequential:
  assumes v: "valid_order limit n order" and p: "limit \<le> 1"
  shows "order = [0..<n]"
proof -
  have d: "distinct order" and s: "set order = {..<n}"
    and b: "\<forall>k<length order. order ! k \<le> k"
    using v p by (auto simp: valid_order_def)
  have len: "length order = n"
    using distinct_card [OF d] s by simp
  have "k < n \<Longrightarrow> order ! k = k" for k
  proof (induction k rule: less_induct)
    case (less k)
    have "order ! k \<le> k" using b less.prems len by simp
    moreover have "order ! k \<noteq> j" if "j < k" for j
    proof -
      have "order ! j = j" using less that by simp
      moreover have "order ! j \<noteq> order ! k"
        using d that less.prems len by (simp add: nth_eq_iff_index_eq)
      ultimately show ?thesis by simp
    qed
    ultimately show ?case by (metis le_neq_implies_less)
  qed
  then show ?thesis by (intro nth_equalityI) (auto simp: len)
qed

section \<open>Properties\<close>

text \<open>
  A pipeline runs its executors in order and stops at the first that fails or after which the
  context is done, so that nothing after it runs.
\<close>

theorem pipeline_spec:
  "NewPipelineExecutor (e # es) ctx w =
     (case e ctx w of
        (Some err, w') \<Rightarrow> (Some err, w')
      | (None, w') \<Rightarrow>
          (if es = [] then (None, w')
           else case ctx_Err ctx w' of
                  Some err \<Rightarrow> (Some err, w')
                | None \<Rightarrow> NewPipelineExecutor es ctx w'))"
  by (cases "e ctx w") (auto simp: pipeline_Cons Then_def split: option.splits)

text \<open>
  With a limit of one worker or less the parallel executor runs the executors one after the
  other in their order, whatever fails; the result is the context's error if it has one, else the
  first error, and nil only if no executor failed.
\<close>

theorem parallel_one_worker:
  assumes "valid_order limit (length executors) order" and "limit \<le> 1"
    and "executors \<noteq> []"
  shows "NewParallelExecutor order executors ctx w =
     (case run_workers (map recovered executors) ctx w of
        (errs, w') \<Rightarrow>
          ((case ctx_Err ctx w' of Some err \<Rightarrow> Some err | None \<Rightarrow> first_error None errs), w'))"
proof -
  have "order = [0..<length executors]"
    using valid_order_sequential assms(1,2) by blast
  then have "map (\<lambda>i. recovered (executors ! i)) order = map recovered executors"
    by (intro nth_equalityI) auto
  then show ?thesis
    using assms(3) by (auto simp: NewParallelExecutor_def split: prod.splits option.splits)
qed

theorem parallel_one_worker_witness:
  "valid_order 0 2 [0, 1] \<and>
   fst (NewParallelExecutor [0, 1]
     [\<lambda>ctx w. (Inl ''boom'', w), \<lambda>ctx w. (Inr (Some Canceled), w)]
     Background (\<lparr>fired = [], next_source = 0, error_cells = Map.empty, next_cell = 0\<rparr>)) =
     Some (Errorf ''panic: boom'')"
proof -
  have v: "valid_order 0 2 [0, 1]"
    by (auto simp: valid_order_def less_Suc_eq numeral_2_eq_2)
  then have "valid_order 0 (length [\<lambda>ctx w. (Inl ''boom'', w), \<lambda>ctx w. (Inr (Some Canceled), w)]) [0, 1]"
    by (simp add: numeral_2_eq_2)
  from parallel_one_worker [OF this, of Background
      "\<lparr>fired = [], next_source = 0, error_cells = Map.empty, next_cell = 0\<rparr>"] v
  show ?thesis by (simp add: recovered_def)
qed



text \<open>What \<^verbatim>\<open>Finally\<close> is given runs exactly once after the executor, whether it failed or not.\<close>

theorem Finally_always_runs: "snd (Finally e f ctx w) = snd (f ctx (snd (e ctx w)))"
  by (auto simp: Finally_def split: prod.splits option.splits)

end
