(* ===== verification/GoText.thy ===== *)
theory GoText
  imports GoPrelude "HOL-Library.AList"
begin

text \<open>
  More of the Go library the text-processing components share: dictionaries whose iteration order
  matters, \<^verbatim>\<open>strings.Replacer\<close>, and the matcher of package \<^verbatim>\<open>regexp\<close> for the patterns the
  code compiles.
\<close>

section \<open>Dictionaries\<close>

text \<open>
  A Go map that the code iterates over is an association list with distinct keys; its order stands
  for the order in which a \<^verbatim>\<open>range\<close> visits it. Go leaves that order open, so a theorem about any
  such list covers every order. A missing string value reads as the empty string.
\<close>

type_synonym 'v dict = "(string \<times> 'v) list"
type_synonym env = "string dict"

definition dict_get :: "env \<Rightarrow> string \<Rightarrow> string" where
  "dict_get d k = (case map_of d k of None \<Rightarrow> [] | Some v \<Rightarrow> v)"

abbreviation dict_put :: "string \<Rightarrow> 'v \<Rightarrow> 'v dict \<Rightarrow> 'v dict" where
  "dict_put k v d \<equiv> AList.update k v d"

definition dict_wf :: "'v dict \<Rightarrow> bool" where
  "dict_wf d = distinct (map fst d)"

lemma dict_get_put [simp, go_simps]:
  "dict_get (dict_put k v d) j = (if j = k then v else dict_get d j)"
  by (simp add: dict_get_def update_conv')

lemma dict_wf_Nil [simp]: "dict_wf []"
  by (simp add: dict_wf_def)

lemma dict_wf_put [simp]: "dict_wf d \<Longrightarrow> dict_wf (dict_put k v d)"
  by (simp add: dict_wf_def distinct_update)

lemma dict_keys_put [simp]: "fst ` set (dict_put k v d) = insert k (fst ` set d)"
  by (simp add: dom_update)

text \<open>\<^verbatim>\<open>maps.Copy\<close>: every entry of the source is stored into the target.\<close>

definition maps_Copy :: "'v dict \<Rightarrow> 'v dict \<Rightarrow> 'v dict" where
  "maps_Copy target m = fold (\<lambda>(k, v). dict_put k v) m target"

lemma map_of_maps_Copy:
  "dict_wf m \<Longrightarrow> map_of (maps_Copy target m) = map_of target ++ map_of m"
proof (induction m arbitrary: target)
  case (Cons kv m)
  obtain k v where kv: "kv = (k, v)" by fastforce
  from Cons.prems kv have wf: "dict_wf m" and k: "map_of m k = None"
    by (auto simp: dict_wf_def map_of_eq_None_iff)
  have "map_of (maps_Copy target (kv # m)) = map_of (maps_Copy (dict_put k v target) m)"
    by (simp add: maps_Copy_def kv)
  also have "\<dots> = (map_of target)(k \<mapsto> v) ++ map_of m"
    by (simp only: Cons.IH [OF wf] update_conv)
  also have "\<dots> = map_of target ++ map_of (kv # m)"
    using k by (auto simp: kv map_add_def fun_eq_iff split: option.splits)
  finally show ?case .
qed (simp add: maps_Copy_def)

lemma dict_wf_maps_Copy [simp]: "dict_wf target \<Longrightarrow> dict_wf (maps_Copy target m)"
  by (induction m arbitrary: target) (auto simp: maps_Copy_def)

section \<open>Quotes\<close>

text \<open>
  A string between single quotes, and \<^verbatim>\<open>%q\<close>, which writes it between double quotes. The
  escapes \<^verbatim>\<open>%q\<close> applies inside are left out: it is only used in messages.
\<close>

definition squote :: "string \<Rightarrow> string" where
  "squote s = CHR 0x27 # s @ [CHR 0x27]"

definition gq :: "string \<Rightarrow> string" where
  "gq s = CHR 0x22 # s @ [CHR 0x22]"

section \<open>Replacers\<close>

text \<open>
  \<^verbatim>\<open>strings.NewReplacer(pairs...).Replace(s)\<close>: at each position the first pair, in argument order,
  whose old string is in front is replaced, and the scan goes on behind it; nothing written is
  looked at again. No replacer of the program has an empty old string; one would be skipped here.
  \<^verbatim>\<open>strings.ReplaceAll\<close> is the case of one pair.
\<close>

definition hit :: "string \<Rightarrow> string \<times> string \<Rightarrow> bool" where
  "hit s p = (fst p \<noteq> [] \<and> has_prefix (fst p) s)"

function go_replace :: "(string \<times> string) list \<Rightarrow> string \<Rightarrow> string" where
  "go_replace pairs s =
     (case find (hit s) pairs of
        Some p \<Rightarrow> snd p @ go_replace pairs (drop (length (fst p)) s)
      | None \<Rightarrow> (case s of [] \<Rightarrow> [] | c # s' \<Rightarrow> c # go_replace pairs s'))"
  by pat_completeness auto
termination
proof (relation "measure (\<lambda>(pairs, s). length s)")
  fix pairs s and p :: "string \<times> string"
  assume "find (hit s) pairs = Some p"
  then have "hit s p" by (auto simp: find_Some_iff)
  then show "((pairs, drop (length (fst p)) s), pairs, s) \<in> measure (\<lambda>(pairs, s). length s)"
    by (auto simp: hit_def has_prefix_iff)
qed auto

declare go_replace.simps [simp del]

lemma hit_Nil [simp]: "\<not> hit [] p"
  by (cases "fst p") (auto simp: hit_def)

lemma go_replace_Nil [simp, go_simps]: "go_replace pairs [] = []"
proof -
  have "find (hit []) pairs = None" by (simp add: find_None_iff)
  then show ?thesis by (simp add: go_replace.simps [of pairs "[]"])
qed

text \<open>The two cases of a step, as rules.\<close>

lemma go_replace_hit:
  "find (hit s) pairs = Some p \<Longrightarrow>
     go_replace pairs s = snd p @ go_replace pairs (drop (length (fst p)) s)"
  by (simp add: go_replace.simps [of pairs s])

lemma go_replace_miss:
  "find (hit (c # s)) pairs = None \<Longrightarrow> go_replace pairs (c # s) = c # go_replace pairs s"
  by (simp add: go_replace.simps [of pairs "c # s"])

abbreviation ReplaceAll :: "string \<Rightarrow> string \<Rightarrow> string \<Rightarrow> string" where
  "ReplaceAll s old new \<equiv> go_replace [(old, new)] s"

section \<open>Regular expressions\<close>

text \<open>
  Package \<^verbatim>\<open>regexp\<close> prefers the leftmost alternative of a choice and the longest repetition, like
  a backtracking matcher. The patterns of the program repeat single character classes only. A match
  attempt yields the ways to match a prefix, in order of preference, each as the number of
  characters used and the groups captured.
\<close>

datatype re =
    Cls "char \<Rightarrow> bool"
  | Rep nat "char \<Rightarrow> bool"
  | Opt re
  | Seq re re
  | Grp nat re

type_synonym captures = "(nat \<times> string) list"

fun rmatch :: "re \<Rightarrow> string \<Rightarrow> (nat \<times> captures) list" where
  "rmatch (Cls p) s = (case s of [] \<Rightarrow> [] | c # s' \<Rightarrow> if p c then [(1, [])] else [])"
| "rmatch (Rep k p) s =
     map (\<lambda>n. (n, [])) (rev [k..<Suc (length (takeWhile p s))])"
| "rmatch (Opt r) s = rmatch r s @ [(0, [])]"
| "rmatch (Seq r1 r2) s =
     concat (map (\<lambda>(n, c). map (\<lambda>(m, d). (n + m, c @ d)) (rmatch r2 (drop n s))) (rmatch r1 s))"
| "rmatch (Grp i r) s = map (\<lambda>(n, c). (n, (i, take n s) # c)) (rmatch r s)"

definition lit :: "char \<Rightarrow> re" where "lit c = Cls (\<lambda>d. d = c)"

fun seq_all :: "re list \<Rightarrow> re" where
  "seq_all [] = Opt (Cls (\<lambda>_. False))"
| "seq_all [r] = r"
| "seq_all (r # rs) = Seq r (seq_all rs)"

text \<open>
  \<^verbatim>\<open>FindStringSubmatch\<close> for a pattern anchored at both ends: the preferred match that uses the
  whole string. A group that took no part reads as the empty string.
\<close>

definition full_match :: "re \<Rightarrow> string \<Rightarrow> captures option" where
  "full_match r s = map_option snd (find (\<lambda>(n, c). n = length s) (rmatch r s))"

definition group_of :: "nat \<Rightarrow> captures \<Rightarrow> string" where
  "group_of i c = (case map_of c i of None \<Rightarrow> [] | Some w \<Rightarrow> w)"

end
