(* ===== verification/RunContext.thy ===== *)
theory RunContext
  imports Executor GoText
begin

text \<open>
  The state of a job, \<^verbatim>\<open>RunContext\<close> of \<^verbatim>\<open>act/runner/run_context.go\<close>: the environment, the
  results of the steps, the masks, and the marks a failure or an interruption leaves, with the
  operations the workflow commands, the steps and the job executor share. The world the executors
  run in (the contexts' sources and error cells) is part of it.
\<close>

section \<open>State\<close>

datatype StepStatus = StepStatusSuccess | StepStatusFailure | StepStatusSkipped

record StepResult =
  Outcome :: StepStatus
  Conclusion :: StepStatus
  Outputs :: env

datatype log_level = LevelError | LevelWarning | LevelInfo | LevelDebug

text \<open>A line written to the job's logger; \<open>raw\<close> marks the output of a step.\<close>

record log_line =
  log_level :: log_level
  raw :: bool
  message :: string

record run_context = go_world +
  Env :: env
  GlobalEnv :: env
  ExtraPath :: "string list"
  CurrentStep :: string
  CurrentStepIndex :: nat
  StepResults :: "StepResult dict"
  IntraActionState :: "env dict"
  OutputMappings :: "((string \<times> string) \<times> string \<times> string) list"
  Masks :: "string list"
  summaryFileInitialized :: "nat list"
  jobCancelled :: bool
  jobFailed :: bool
  stepEnv :: env
  unsecureCommandErr :: "go_error option"
  caseInsensitive :: bool
  Logs :: "log_line list"

definition log_at :: "log_level \<Rightarrow> bool \<Rightarrow> string \<Rightarrow> 'a run_context_scheme \<Rightarrow> 'a run_context_scheme" where
  "log_at l r msg rc = rc\<lparr>Logs := Logs rc @ [\<lparr>log_level = l, raw = r, message = msg\<rparr>]\<rparr>"

abbreviation Infof :: "string \<Rightarrow> 'a run_context_scheme \<Rightarrow> 'a run_context_scheme" where
  "Infof \<equiv> log_at LevelInfo False"

section \<open>Failure and interruption\<close>

definition markCancelled :: "'a run_context_scheme \<Rightarrow> 'a run_context_scheme" where
  "markCancelled rc = rc\<lparr>jobCancelled := True\<rparr>"

definition markFailed :: "'a run_context_scheme \<Rightarrow> 'a run_context_scheme" where
  "markFailed rc = rc\<lparr>jobFailed := True\<rparr>"

definition markInterrupted :: "go_error option \<Rightarrow> 'a run_context_scheme \<Rightarrow> 'a run_context_scheme" where
  "markInterrupted err rc =
     (case err of
        None \<Rightarrow> rc
      | Some e \<Rightarrow>
          if errors_is e Canceled then markCancelled rc
          else if errors_is e DeadlineExceeded then markFailed rc
          else rc)"

definition AddMask :: "string \<Rightarrow> 'a run_context_scheme \<Rightarrow> 'a run_context_scheme" where
  "AddMask m rc = rc\<lparr>Masks := Masks rc @ [m]\<rparr>"

definition setCurrentStepEnv :: "env \<Rightarrow> 'a run_context_scheme \<Rightarrow> 'a run_context_scheme" where
  "setCurrentStepEnv env rc = rc\<lparr>stepEnv := env\<rparr>"

definition currentStepEnv :: "'a run_context_scheme \<Rightarrow> env" where
  "currentStepEnv rc = stepEnv rc"

text \<open>
  The status part of \<^verbatim>\<open>getJobContext\<close>, which the functions \<^verbatim>\<open>success()\<close>, \<^verbatim>\<open>failure()\<close> and
  \<^verbatim>\<open>cancelled()\<close> of later \<^verbatim>\<open>if\<close> conditions read.
\<close>

definition job_status :: "'a run_context_scheme \<Rightarrow> string" where
  "job_status rc =
     (let jobStatus = (if jobFailed rc then ''failure'' else ''success'');
          jobStatus = (if \<exists>(k, r)\<in>set (StepResults rc). Conclusion r = StepStatusFailure
                       then ''failure'' else jobStatus)
      in if jobCancelled rc then ''cancelled'' else jobStatus)"

section \<open>Merging environments\<close>

text \<open>
  \<^verbatim>\<open>mergeIntoMapCaseSensitive\<close> and \<^verbatim>\<open>mergeIntoMapCaseInsensitive\<close> of \<^verbatim>\<open>act/runner/step.go\<close>. The
  second keeps, for every key in lower case, the spelling it has in the target.
\<close>

definition mergeIntoMapCaseSensitive :: "env \<Rightarrow> env list \<Rightarrow> env" where
  "mergeIntoMapCaseSensitive target ms = fold (\<lambda>m t. maps_Copy t m) ms target"

definition fold_keys :: "env \<Rightarrow> env" where
  "fold_keys target = fold (\<lambda>(k, v). dict_put (to_lower k) k) target []"

definition to_key :: "env \<Rightarrow> string \<Rightarrow> string \<times> env" where
  "to_key foldKeys s =
     (let foldKey = to_lower s
      in case map_of foldKeys foldKey of
           Some k \<Rightarrow> (k, foldKeys)
         | None \<Rightarrow> (s, dict_put (to_lower foldKey) s foldKeys))"

definition merge_entry :: "string \<times> string \<Rightarrow> env \<times> env \<Rightarrow> env \<times> env" where
  "merge_entry kv st =
     (case to_key (snd st) (fst kv) of
        (k', foldKeys) \<Rightarrow> (dict_put k' (snd kv) (fst st), foldKeys))"

definition mergeIntoMapCaseInsensitive :: "env \<Rightarrow> env list \<Rightarrow> env" where
  "mergeIntoMapCaseInsensitive target ms =
     fst (fold (fold merge_entry) ms (target, fold_keys target))"

definition mergeIntoMap :: "'a run_context_scheme \<Rightarrow> env \<Rightarrow> env list \<Rightarrow> env" where
  "mergeIntoMap rc target ms =
     (if caseInsensitive rc then mergeIntoMapCaseInsensitive target ms
      else mergeIntoMapCaseSensitive target ms)"

section \<open>Facts\<close>

lemma log_at_simps [simp, frame_simps]:
  "Env (log_at l r m rc) = Env rc" "GlobalEnv (log_at l r m rc) = GlobalEnv rc"
  "ExtraPath (log_at l r m rc) = ExtraPath rc" "Masks (log_at l r m rc) = Masks rc"
  "CurrentStep (log_at l r m rc) = CurrentStep rc" "StepResults (log_at l r m rc) = StepResults rc"
  "CurrentStepIndex (log_at l r m rc) = CurrentStepIndex rc"
  "summaryFileInitialized (log_at l r m rc) = summaryFileInitialized rc"
  "IntraActionState (log_at l r m rc) = IntraActionState rc"
  "OutputMappings (log_at l r m rc) = OutputMappings rc"
  "unsecureCommandErr (log_at l r m rc) = unsecureCommandErr rc"
  "stepEnv (log_at l r m rc) = stepEnv rc" "jobFailed (log_at l r m rc) = jobFailed rc"
  "jobCancelled (log_at l r m rc) = jobCancelled rc" "fired (log_at l r m rc) = fired rc"
  "caseInsensitive (log_at l r m rc) = caseInsensitive rc"
  "error_cells (log_at l r m rc) = error_cells rc"
  by (simp_all add: log_at_def)

text \<open>A merge into a map whose keys differ in more than case keeps them so.\<close>

definition fold_distinct :: "env \<Rightarrow> bool" where
  "fold_distinct d = distinct (map (to_lower \<circ> fst) d)"

lemma fold_distinct_iff: "fold_distinct d \<longleftrightarrow> distinct (map to_lower (map fst d))"
  by (simp add: fold_distinct_def)

definition fold_match :: "env \<Rightarrow> env \<Rightarrow> bool" where
  "fold_match d foldKeys =
     (\<forall>l k. map_of foldKeys l = Some k \<longleftrightarrow> (k \<in> fst ` set d \<and> to_lower k = l))"

lemma fold_distinct_inj:
  "fold_distinct d \<Longrightarrow> k \<in> fst ` set d \<Longrightarrow> j \<in> fst ` set d \<Longrightarrow> to_lower k = to_lower j \<Longrightarrow> k = j"
  unfolding fold_distinct_def map_map [symmetric] by (auto simp: distinct_map inj_on_def)

lemma fold_match_fold_keys:
  assumes "fold_distinct target"
  shows "fold_match target (fold_keys target)"
proof -
  have "fold_distinct (rev d) \<Longrightarrow>
      map_of (foldr (\<lambda>(k, v). dict_put (to_lower k) k) d []) l = Some k \<longleftrightarrow>
      (k \<in> fst ` set d \<and> to_lower k = l)" for d :: env and l k
  proof (induction d)
    case (Cons kv d)
    obtain j v where kv: "kv = (j, v)" by fastforce
    from Cons.prems kv have d: "fold_distinct (rev d)"
      and n: "to_lower j \<notin> to_lower ` fst ` set d"
      by (auto simp: fold_distinct_def image_comp)
    have n2: "\<And>i w. (i, w) \<in> set d \<Longrightarrow> to_lower i \<noteq> to_lower j"
      using n by (metis fst_conv image_eqI)
    show ?case using Cons.IH [OF d] by (auto simp: kv update_conv' dest: n2)
  qed simp
  from this [of "rev target"] assms show ?thesis
    by (simp add: fold_match_def fold_keys_def foldr_conv_fold)
qed

lemma merge_entry_inv:
  assumes "fold_distinct (fst st)" and "fold_match (fst st) (snd st)"
  shows "fold_distinct (fst (merge_entry kv st)) \<and>
    fold_match (fst (merge_entry kv st)) (snd (merge_entry kv st))"
proof -
  obtain d fk where st: "st = (d, fk)" by fastforce
  obtain k v where kv: "kv = (k, v)" by fastforce
  from assms st have d: "fold_distinct d" and m: "fold_match d fk" by simp_all
  show ?thesis
  proof (cases "map_of fk (to_lower k)")
    case (Some k')
    with m have k': "k' \<in> fst ` set d" "to_lower k' = to_lower k" by (auto simp: fold_match_def)
    then have "map fst (dict_put k' v d) = map fst d"
      by (auto simp: update_keys)
    then have "fold_distinct (dict_put k' v d)"
      using d by (simp only: fold_distinct_iff)
    moreover have "fold_match (dict_put k' v d) fk"
      using m k' by (auto simp: fold_match_def insert_absorb)
    ultimately show ?thesis
      using Some by (simp add: merge_entry_def to_key_def st kv)
  next
    case None
    have new: "to_lower j \<noteq> to_lower k" if "j \<in> fst ` set d" for j
    proof
      assume "to_lower j = to_lower k"
      with m that have "map_of fk (to_lower k) = Some j" unfolding fold_match_def by blast
      with None show False by simp
    qed
    then have "k \<notin> fst ` set d" by blast
    then have "map fst (dict_put k v d) = map fst d @ [k]"
      by (auto simp: update_keys)
    moreover have "to_lower k \<notin> set (map to_lower (map fst d))"
      using new by (metis imageE set_map)
    ultimately have "fold_distinct (dict_put k v d)"
      using d by (simp only: fold_distinct_iff map_append distinct_append) simp
    moreover have "fold_match (dict_put k v d) (dict_put (to_lower k) k fk)"
      unfolding fold_match_def
    proof (intro allI)
      fix l j
      from m have "map_of fk l = Some j \<longleftrightarrow> j \<in> fst ` set d \<and> to_lower j = l"
        by (simp add: fold_match_def)
      then show "map_of (dict_put (to_lower k) k fk) l = Some j \<longleftrightarrow>
          j \<in> fst ` set (dict_put k v d) \<and> to_lower j = l"
        using new [of j] by (auto simp: update_conv')
    qed
    ultimately show ?thesis
      using None by (simp add: merge_entry_def to_key_def st kv)
  qed
qed

lemma fold_merge_entry_inv:
  "fold_distinct (fst st) \<Longrightarrow> fold_match (fst st) (snd st) \<Longrightarrow>
   fold_distinct (fst (fold merge_entry m st)) \<and>
   fold_match (fst (fold merge_entry m st)) (snd (fold merge_entry m st))"
  by (induction m arbitrary: st) (auto simp: merge_entry_inv)

lemma fold_fold_merge_inv:
  "fold_distinct (fst st) \<Longrightarrow> fold_match (fst st) (snd st) \<Longrightarrow>
   fold_distinct (fst (fold (fold merge_entry) ms st)) \<and>
   fold_match (fst (fold (fold merge_entry) ms st)) (snd (fold (fold merge_entry) ms st))"
  by (induction ms arbitrary: st) (auto simp: fold_merge_entry_inv)

section \<open>Properties\<close>

text \<open>
  The case-insensitive merge, used where the job's environment ignores case, never leaves two
  spellings of one variable in a map that had none.
\<close>

theorem case_insensitive_merge_unique:
  "fold_distinct target \<Longrightarrow> fold_distinct (mergeIntoMapCaseInsensitive target ms)"
  using fold_fold_merge_inv [of "(target, fold_keys target)" ms] fold_match_fold_keys
  by (auto simp: mergeIntoMapCaseInsensitive_def)

theorem case_insensitive_merge_unique_witness:
  "fold_distinct [(''Path'', ''a'')] \<and>
   mergeIntoMapCaseInsensitive [(''Path'', ''a'')] [[(''PATH'', ''b'')]] = [(''Path'', ''b'')] \<and>
   fold_distinct (mergeIntoMapCaseInsensitive [(''Path'', ''a'')] [[(''PATH'', ''b'')]])"
proof (intro conjI)
  show d: "fold_distinct [(''Path'', ''a'')]" by (simp add: fold_distinct_def)
  show "mergeIntoMapCaseInsensitive [(''Path'', ''a'')] [[(''PATH'', ''b'')]] = [(''Path'', ''b'')]"
    by code_simp
  show "fold_distinct (mergeIntoMapCaseInsensitive [(''Path'', ''a'')] [[(''PATH'', ''b'')]])"
    by (rule case_insensitive_merge_unique [OF d])
qed

end
