(* ===== verification/LineWriter.thy ===== *)
theory LineWriter
  imports GoPrelude
begin

text \<open>
  The line writer, \<^verbatim>\<open>act/common/line_writer.go\<close>: the output of a step arrives in arbitrary
  chunks and is handed on line by line, each line with its newline, to a chain of handlers; what
  follows the last newline waits in a buffer until more arrives or the stream is flushed. A handler
  is a function of its state and the line; it says whether the next handler sees the line too.
\<close>

type_synonym 's line_handler = "string \<Rightarrow> 's \<Rightarrow> bool \<times> 's"

definition newline :: char where "newline = CHR 0x0A"

text \<open>The writer's state: the buffered tail and the state the handlers share.\<close>

record 's lineWriter =
  buffer :: string
  handler_state :: 's

fun handleLine :: "'s line_handler list \<Rightarrow> string \<Rightarrow> 's \<Rightarrow> 's" where
  "handleLine [] line s = s"
| "handleLine (h # hs) line s =
     (case h line s of (ok, s') \<Rightarrow> if \<not> ok then s' else handleLine hs line s')"

text \<open>
  \<^verbatim>\<open>Write\<close>: each round of the loop reads up to and including the next newline of what is left
  of \<open>p\<close>, or, at the end of \<open>p\<close>, the rest.
\<close>

function write_loop :: "'s line_handler list \<Rightarrow> string \<Rightarrow> nat \<Rightarrow> 's lineWriter \<Rightarrow> nat \<times> 's lineWriter" where
  "write_loop hs p written lw =
     (if newline \<in> set p then
        (let line = takeWhile (\<lambda>c. c \<noteq> newline) p @ [newline];
             rest = drop (length line) p;
             buf = buffer lw @ line
         in write_loop hs rest (written + length line)
              (lw\<lparr>handler_state := handleLine hs buf (handler_state lw), buffer := []\<rparr>))
      else (written + length p, lw\<lparr>buffer := buffer lw @ p\<rparr>))"
  by pat_completeness auto
termination
  by (relation "measure (\<lambda>(hs, p, written, lw). length p)")
     (auto simp: in_set_conv_decomp intro!: diff_less)

declare write_loop.simps [simp del]

definition Write :: "'s line_handler list \<Rightarrow> string \<Rightarrow> 's lineWriter \<Rightarrow> nat \<times> 's lineWriter" where
  "Write hs p lw = write_loop hs p 0 lw"

definition Flush :: "'s line_handler list \<Rightarrow> 's lineWriter \<Rightarrow> 's lineWriter" where
  "Flush hs lw =
     (if buffer lw = [] then lw
      else lw\<lparr>handler_state := handleLine hs (buffer lw) (handler_state lw), buffer := []\<rparr>)"

fun write_all :: "'s line_handler list \<Rightarrow> string list \<Rightarrow> 's lineWriter \<Rightarrow> 's lineWriter" where
  "write_all hs [] lw = lw"
| "write_all hs (p # ps) lw = write_all hs ps (snd (Write hs p lw))"

section \<open>The specification: the lines of a text\<close>

text \<open>The complete lines of a text, newline included, and what follows the last newline.\<close>

fun text_lines :: "string \<Rightarrow> string \<Rightarrow> string list \<times> string" where
  "text_lines acc [] = ([], acc)"
| "text_lines acc (c # s) =
     (if c = newline then (case text_lines [] s of (ls, r) \<Rightarrow> ((acc @ [c]) # ls, r))
      else text_lines (acc @ [c]) s)"

lemma text_lines_append:
  "text_lines acc (s @ t) =
     (case text_lines acc s of
        (ls, r) \<Rightarrow> (case text_lines r t of (ls', r') \<Rightarrow> (ls @ ls', r')))"
  by (induction acc s rule: text_lines.induct) (auto split: prod.splits)

lemma text_lines_no_newline: "newline \<notin> set s \<Longrightarrow> text_lines acc s = ([], acc @ s)"
  by (induction s arbitrary: acc) auto

lemma text_lines_concat: "text_lines acc s = (ls, r) \<Longrightarrow> concat ls @ r = acc @ s"
  by (induction acc s arbitrary: ls r rule: text_lines.induct) (auto split: prod.splits if_splits)

lemma text_lines_shape:
  "text_lines acc s = (ls, r) \<Longrightarrow> newline \<notin> set acc \<Longrightarrow>
     newline \<notin> set r \<and> (\<forall>l\<in>set ls. \<exists>l'. l = l' @ [newline] \<and> newline \<notin> set l')"
proof (induction acc s arbitrary: ls r rule: text_lines.induct)
  case (2 acc c s)
  show ?case
  proof (cases "c = newline")
    case True
    obtain ls' r' where l: "text_lines [] s = (ls', r')" by fastforce
    with "2.IH"(1) [OF True l] "2.prems" True show ?thesis by auto
  next
    case False
    with "2.IH"(2) [OF False] "2.prems" show ?thesis by auto
  qed
qed auto

text \<open>The loop feeds the handlers exactly these lines.\<close>

lemma write_loop_spec:
  "write_loop hs p written lw =
     (written + length p,
      lw\<lparr>handler_state := fold (handleLine hs) (fst (text_lines (buffer lw) p)) (handler_state lw),
         buffer := snd (text_lines (buffer lw) p)\<rparr>)"
proof (induction hs p written lw rule: write_loop.induct)
  case (1 hs p written lw)
  show ?case
  proof (cases "newline \<in> set p")
    case False
    then show ?thesis by (simp add: write_loop.simps [of hs p] text_lines_no_newline)
  next
    case True
    then obtain a b where p: "p = a @ newline # b" and na: "newline \<notin> set a"
      by (meson split_list_first)
    have tw: "takeWhile (\<lambda>c. c \<noteq> newline) p = a"
      using p na by (induction a arbitrary: p) auto
    have tl: "text_lines (buffer lw) p =
        (case text_lines [] b of (ls, r) \<Rightarrow> ((buffer lw @ a @ [newline]) # ls, r))"
      by (simp add: p text_lines_append text_lines_no_newline [OF na] split: prod.splits)
    have rest: "drop (length (takeWhile (\<lambda>c. c \<noteq> newline) p @ [newline])) p = b"
      by (simp only: tw) (simp add: p)
    obtain ls r where b: "text_lines [] b = (ls, r)" by fastforce
    let ?buf = "buffer lw @ a @ [newline]"
    let ?lw = "lw\<lparr>handler_state := handleLine hs ?buf (handler_state lw), buffer := []\<rparr>"
    have IH: "write_loop hs b (written + length (a @ [newline])) ?lw =
        (written + length (a @ [newline]) + length b,
         ?lw\<lparr>handler_state := fold (handleLine hs) ls (handler_state ?lw), buffer := r\<rparr>)"
      using "1.IH" [OF True refl refl refl, unfolded rest, unfolded tw] by (simp add: b)
    have "write_loop hs p written lw = write_loop hs b (written + length (a @ [newline])) ?lw"
      using True by (simp only: write_loop.simps [of hs p] if_True Let_def rest, simp only: tw)
    also have "\<dots> = (written + length p,
        lw\<lparr>handler_state := fold (handleLine hs) (?buf # ls) (handler_state lw), buffer := r\<rparr>)"
      by (simp only: IH) (simp add: p)
    finally show ?thesis by (simp add: tl b)
  qed
qed

lemma write_all_spec:
  "write_all hs ps lw =
     lw\<lparr>handler_state := fold (handleLine hs) (fst (text_lines (buffer lw) (concat ps))) (handler_state lw),
        buffer := snd (text_lines (buffer lw) (concat ps))\<rparr>"
proof (induction ps arbitrary: lw)
  case (Cons p ps)
  show ?case
    by (simp add: Cons Write_def write_loop_spec text_lines_append split: prod.splits)
qed simp

section \<open>Properties\<close>

text \<open>A handler that records the lines it is given.\<close>

definition recorder :: "string list line_handler" where
  "recorder line seen = (True, seen @ [line])"

lemma fold_recorder: "fold (handleLine [recorder]) ls seen = seen @ ls"
  by (induction ls arbitrary: seen) (auto simp: recorder_def)

text \<open>
  C30: how the output was cut into writes does not matter: writing the chunks one after the other
  leaves the writer and its handlers as one write of the whole would, and the count of bytes
  reported is the length of the input.
\<close>

theorem write_chunking:
  "write_all hs ps lw = snd (Write hs (concat ps) lw) \<and> fst (Write hs p lw) = length p"
  by (simp add: write_all_spec Write_def write_loop_spec)

text \<open>
  No byte of the output is lost, added or reordered: from an empty buffer, the lines handed on
  by the writes and the final flush, glued together, are the output; every line but a last
  unterminated one ends in the only newline it contains.
\<close>

theorem write_flush_lossless:
  "let seen = handler_state (Flush [recorder] (write_all [recorder] ps
      \<lparr>buffer = [], handler_state = []\<rparr>))
   in concat seen = concat ps \<and>
      list_all (\<lambda>l. \<exists>l'. l = l' @ [newline] \<and> newline \<notin> set l') (butlast seen)"
proof -
  obtain ls r where l: "text_lines [] (concat ps) = (ls, r)" by fastforce
  have "handler_state (Flush [recorder] (write_all [recorder] ps \<lparr>buffer = [], handler_state = []\<rparr>)) =
      (if r = [] then ls else ls @ [r])"
    by (simp add: write_all_spec l fold_recorder Flush_def recorder_def)
  with text_lines_concat [OF l] text_lines_shape [OF l] show ?thesis
    by (auto simp: Let_def list_all_iff dest: in_set_butlastD)
qed

end
