(* ===== verification/Command.thy ===== *)
theory Command
  imports RunContext LineWriter
begin

text \<open>
  Workflow commands, \<^verbatim>\<open>act/runner/command.go\<close>: the lines \<^verbatim>\<open>::cmd k=v::data\<close> and
  \<^verbatim>\<open>##[cmd k=v]data\<close> a step prints, their escapes, and what the runner does for each. The
  handler is one of the line handlers of the step's log writer.
\<close>

section \<open>Escapes\<close>

definition commandDataEscaper :: "(string \<times> string) list" where
  "commandDataEscaper = [(''%'', ''%25''), ([CHR 0x0D], ''%0D''), ([CHR 0x0A], ''%0A'')]"

definition commandDataUnescaper :: "(string \<times> string) list" where
  "commandDataUnescaper = [(''%25'', ''%''), (''%0D'', [CHR 0x0D]), (''%0A'', [CHR 0x0A])]"

definition commandPropertyUnescaper :: "(string \<times> string) list" where
  "commandPropertyUnescaper =
     [(''%25'', ''%''), (''%0D'', [CHR 0x0D]), (''%0A'', [CHR 0x0A]), (''%3A'', '':''), (''%2C'', '','')]"

definition EscapeCommandData :: "string \<Rightarrow> string" where
  "EscapeCommandData arg = go_replace commandDataEscaper arg"

definition UnescapeCommandData :: "string \<Rightarrow> string" where
  "UnescapeCommandData arg = go_replace commandDataUnescaper arg"

definition unescapeCommandProperty :: "string \<Rightarrow> string" where
  "unescapeCommandProperty arg = go_replace commandPropertyUnescaper arg"

definition unescapeKvPairs :: "env \<Rightarrow> env" where
  "unescapeKvPairs kvPairs = map (\<lambda>(k, v). (k, unescapeCommandProperty v)) kvPairs"

section \<open>Parsing\<close>

definition not_space :: "char \<Rightarrow> bool" where "not_space c = (c \<noteq> CHR '' '')"
definition not_newline :: "char \<Rightarrow> bool" where "not_newline c = (c \<noteq> CHR 0x0A)"
definition is_eol :: "char \<Rightarrow> bool" where "is_eol c = (c = CHR 0x0D \<or> c = CHR 0x0A)"

definition data_and_eol :: re where
  "data_and_eol = Seq (Grp 4 (Rep 0 (\<lambda>c. \<not> is_eol c))) (Rep 1 is_eol)"

definition opt_params :: re where
  "opt_params = Opt (Grp 2 (Seq (lit CHR '' '') (Grp 3 (Rep 1 not_newline))))"

definition commandPatternGA :: re where
  "commandPatternGA = seq_all
     [lit CHR '':'', lit CHR '':'', Grp 1 (Rep 1 not_space), opt_params,
      lit CHR '':'', lit CHR '':'', data_and_eol]"

definition commandPatternADO :: re where
  "commandPatternADO = seq_all
     [lit CHR ''#'', lit CHR ''#'', lit CHR ''['', Grp 1 (Rep 1 not_space), opt_params,
      lit CHR '']'', data_and_eol]"

definition parseKeyValuePairs :: "string \<Rightarrow> char \<Rightarrow> env" where
  "parseKeyValuePairs kvPairs separator =
     fold (\<lambda>kvPair rtn.
       let kv = split_at CHR ''='' kvPair
       in if length kv = 2 then dict_put (kv ! 0) (kv ! 1) rtn else rtn)
     (split_at separator kvPairs) []"

definition tryParseRawActionCommand :: "string \<Rightarrow> (string \<times> env \<times> string) option" where
  "tryParseRawActionCommand line =
     (case full_match commandPatternGA line of
        Some m \<Rightarrow> Some (group_of 1 m, parseKeyValuePairs (group_of 3 m) CHR '','', group_of 4 m)
      | None \<Rightarrow>
          (case full_match commandPatternADO line of
             Some m \<Rightarrow> Some (group_of 1 m, parseKeyValuePairs (group_of 3 m) CHR '';'', group_of 4 m)
           | None \<Rightarrow> None))"

section \<open>The commands\<close>

definition allowUnsecureCommandsVar :: string where
  "allowUnsecureCommandsVar = ''ACTIONS_ALLOW_UNSECURE_COMMANDS''"

definition isTruthyEnv :: "string \<Rightarrow> bool" where
  "isTruthyEnv v = equal_fold (trim_space v) ''true''"

definition allowUnsecureCommandsOptIn :: "'a run_context_scheme \<Rightarrow> bool" where
  "allowUnsecureCommandsOptIn rc =
     (isTruthyEnv (dict_get (currentStepEnv rc) allowUnsecureCommandsVar) \<or>
      isTruthyEnv (dict_get (Env rc) allowUnsecureCommandsVar) \<or>
      isTruthyEnv (dict_get (GlobalEnv rc) allowUnsecureCommandsVar))"

definition refuseUnsecureCommand :: "string \<Rightarrow> 'a run_context_scheme \<Rightarrow> bool \<times> 'a run_context_scheme" where
  "refuseUnsecureCommand command rc =
     (if allowUnsecureCommandsOptIn rc then (False, rc)
      else
        (let rc = log_at LevelError True (''##[error]'' @ EscapeCommandData
               (''The `'' @ command @ ''` command is disabled: it can set the environment of every later step from untrusted output. '' @
                ''Write to $GITHUB_ENV or $GITHUB_PATH instead, or set ACTIONS_ALLOW_UNSECURE_COMMANDS to allow it'')) rc
         in (True,
             if unsecureCommandErr rc = None
             then rc\<lparr>unsecureCommandErr :=
                    Some (Errorf (''the `'' @ command @ ''` workflow command is disabled''))\<rparr>
             else rc)))"

definition takeUnsecureCommandError ::
  "'a run_context_scheme \<Rightarrow> go_error option \<times> 'a run_context_scheme" where
  "takeUnsecureCommandError rc = (unsecureCommandErr rc, rc\<lparr>unsecureCommandErr := None\<rparr>)"

definition setEnv :: "env \<Rightarrow> string \<Rightarrow> 'a run_context_scheme \<Rightarrow> 'a run_context_scheme" where
  "setEnv kvPairs arg rc =
     (let name = dict_get kvPairs ''name'';
          rc = Infof (''::set-env:: '' @ name @ ''='' @ arg) rc;
          newenv = [(name, arg)];
          rc = rc\<lparr>Env := mergeIntoMap rc (Env rc) [newenv]\<rparr>
      in rc\<lparr>GlobalEnv := mergeIntoMap rc (GlobalEnv rc) [newenv]\<rparr>)"

definition setOutput :: "env \<Rightarrow> string \<Rightarrow> 'a run_context_scheme \<Rightarrow> 'a run_context_scheme" where
  "setOutput kvPairs arg rc =
     (let outputName = dict_get kvPairs ''name'';
          (stepID, outputName) =
            (case map_of (OutputMappings rc) (CurrentStep rc, outputName) of
               Some (i, n) \<Rightarrow> (i, n)
             | None \<Rightarrow> (CurrentStep rc, outputName))
      in case map_of (StepResults rc) stepID of
           None \<Rightarrow> Infof (''No outputs registered for step '' @ squote stepID) rc
         | Some result \<Rightarrow>
             (Infof (''::set-output:: '' @ outputName @ ''='' @ arg) rc)
               \<lparr>StepResults := dict_put stepID
                  (result\<lparr>Outputs := dict_put outputName arg (Outputs result)\<rparr>) (StepResults rc)\<rparr>)"

definition addPath :: "string \<Rightarrow> 'a run_context_scheme \<Rightarrow> 'a run_context_scheme" where
  "addPath arg rc =
     (Infof (''::add-path:: '' @ arg) rc)
       \<lparr>ExtraPath := arg # filter (\<lambda>v. v \<noteq> arg) (ExtraPath rc)\<rparr>"

definition saveState :: "env \<Rightarrow> string \<Rightarrow> 'a run_context_scheme \<Rightarrow> 'a run_context_scheme" where
  "saveState kvPairs arg rc =
     (let stepID = CurrentStep rc
      in if stepID \<noteq> [] then
           (let state = (case map_of (IntraActionState rc) stepID of None \<Rightarrow> [] | Some s \<Rightarrow> s)
            in rc\<lparr>IntraActionState := dict_put stepID
                   (dict_put (dict_get kvPairs ''name'') arg state) (IntraActionState rc)\<rparr>)
         else rc)"

text \<open>
  The switch of \<^verbatim>\<open>commandHandler\<close>, and the handler: its state is the token that ends a
  \<^verbatim>\<open>::stop-commands::\<close> section (empty outside one) and the run context. It always lets the next
  handler see the line.
\<close>

definition command_switch ::
  "string \<Rightarrow> env \<Rightarrow> string \<Rightarrow> string \<Rightarrow> 'a run_context_scheme \<Rightarrow> string \<times> 'a run_context_scheme" where
  "command_switch command kvPairs arg line rc =
     (if command = ''set-env'' then ([], setEnv kvPairs arg rc)
      else if command = ''set-output'' then ([], setOutput kvPairs arg rc)
      else if command = ''add-path'' then ([], addPath arg rc)
      else if command = ''add-mask'' then ([], Infof ''***'' (AddMask arg rc))
      else if command = ''stop-commands'' then (arg, Infof line rc)
      else if command = ''save-state'' then ([], saveState kvPairs arg (Infof line rc))
      else ([], Infof line rc))"

definition commandHandler :: "(string \<times> 'a run_context_scheme) line_handler" where
  "commandHandler line st =
     (case st of (resumeCommand, rc) \<Rightarrow>
        case tryParseRawActionCommand line of
          None \<Rightarrow> (True, (resumeCommand, rc))
        | Some (command, kvPairs, arg) \<Rightarrow>
            if resumeCommand \<noteq> [] then
              (True, (if command = resumeCommand then [] else resumeCommand, Infof line rc))
            else
              (let arg = UnescapeCommandData arg;
                   kvPairs = unescapeKvPairs kvPairs
               in if command = ''set-env'' \<or> command = ''add-path'' then
                    (case refuseUnsecureCommand command rc of
                       (True, rc') \<Rightarrow> (True, ([], rc'))
                     | (False, rc') \<Rightarrow> (True, command_switch command kvPairs arg line rc'))
                  else (True, command_switch command kvPairs arg line rc)))"

section \<open>Facts about the matcher\<close>

text \<open>What a pattern accepts, as a relation between a prefix and the captures.\<close>

lemma rmatch_Seq:
  "(n, c) \<in> set (rmatch (Seq r1 r2) s) \<longleftrightarrow>
     (\<exists>n1 c1 n2 c2. (n1, c1) \<in> set (rmatch r1 s) \<and> (n2, c2) \<in> set (rmatch r2 (drop n1 s)) \<and>
        n = n1 + n2 \<and> c = c1 @ c2)"
  by force

lemma rmatch_lit: "(n, c) \<in> set (rmatch (lit d) s) \<longleftrightarrow> n = 1 \<and> c = [] \<and> (\<exists>s'. s = d # s')"
  by (auto simp: lit_def split: list.splits)

lemma rmatch_Rep:
  "(n, c) \<in> set (rmatch (Rep k p) s) \<longleftrightarrow> c = [] \<and> k \<le> n \<and> n \<le> length (takeWhile p s)"
  by (auto simp: less_Suc_eq_le)

lemma rmatch_Grp:
  "(n, c) \<in> set (rmatch (Grp i r) s) \<longleftrightarrow> (\<exists>c'. (n, c') \<in> set (rmatch r s) \<and> c = (i, take n s) # c')"
  by force

lemma rmatch_Opt:
  "(n, c) \<in> set (rmatch (Opt r) s) \<longleftrightarrow> (n, c) \<in> set (rmatch r s) \<or> (n = 0 \<and> c = [])"
  by auto

lemmas rmatch_iffs = rmatch_Seq rmatch_lit rmatch_Rep rmatch_Grp rmatch_Opt

declare rmatch.simps [simp del]

lemma take_takeWhile_all: "n \<le> length (takeWhile p s) \<Longrightarrow> \<forall>c\<in>set (take n s). p c"
  by (metis in_set_takeD min.absorb1 set_takeWhileD take_take takeWhile_eq_take)

lemma rmatch_bound: "(n, c) \<in> set (rmatch r s) \<Longrightarrow> n \<le> length s"
proof (induction r arbitrary: s n c)
  case (Rep k p)
  then show ?case using length_takeWhile_le [of p s] by (auto simp: rmatch_Rep)
next
  case (Seq r1 r2)
  then obtain n1 c1 n2 c2 where 1: "(n1, c1) \<in> set (rmatch r1 s)"
    and 2: "(n2, c2) \<in> set (rmatch r2 (drop n1 s))" "n = n1 + n2"
    by (auto simp: rmatch_Seq)
  from Seq.IH(1) [OF 1] Seq.IH(2) [OF 2(1)] 2(2) show ?case by simp
qed (auto simp: rmatch.simps(1) rmatch_Grp rmatch_Opt split: list.splits if_splits)

text \<open>A pattern that uses the whole string.\<close>

definition accepts :: "re \<Rightarrow> string \<Rightarrow> captures \<Rightarrow> bool" where
  "accepts r s c = ((length s, c) \<in> set (rmatch r s))"

lemma full_match_accepts: "full_match r s = Some c \<Longrightarrow> accepts r s c"
proof -
  assume "full_match r s = Some c"
  then obtain n where "find (\<lambda>(n, c). n = length s) (rmatch r s) = Some (n, c)"
    by (auto simp: full_match_def)
  then have "(n, c) \<in> set (rmatch r s) \<and> n = length s"
    by (metis (mono_tags, lifting) case_prod_conv find_Some_iff nth_mem)
  then show ?thesis unfolding accepts_def by blast
qed

lemma accepts_Seq:
  "accepts (Seq r1 r2) s c \<longleftrightarrow>
     (\<exists>n c1 c2. (n, c1) \<in> set (rmatch r1 s) \<and> accepts r2 (drop n s) c2 \<and> c = c1 @ c2)"
proof
  assume "accepts (Seq r1 r2) s c"
  then obtain n c1 m c2 where "(n, c1) \<in> set (rmatch r1 s)" "(m, c2) \<in> set (rmatch r2 (drop n s))"
    "length s = n + m" "c = c1 @ c2"
    by (auto simp: accepts_def rmatch_Seq)
  moreover from this have "m = length (drop n s)" by simp
  ultimately show "\<exists>n c1 c2. (n, c1) \<in> set (rmatch r1 s) \<and> accepts r2 (drop n s) c2 \<and> c = c1 @ c2"
    unfolding accepts_def by blast
next
  assume "\<exists>n c1 c2. (n, c1) \<in> set (rmatch r1 s) \<and> accepts r2 (drop n s) c2 \<and> c = c1 @ c2"
  then obtain n c1 c2 where n: "(n, c1) \<in> set (rmatch r1 s)"
    and r: "(length (drop n s), c2) \<in> set (rmatch r2 (drop n s))" "c = c1 @ c2"
    by (auto simp: accepts_def)
  have "length s = n + length (drop n s)" using rmatch_bound [OF n] by simp
  with n r show "accepts (Seq r1 r2) s c"
    unfolding accepts_def rmatch_Seq by blast
qed

lemma accepts_lit: "accepts (Seq (lit d) r) s c \<longleftrightarrow> (\<exists>s'. s = d # s' \<and> accepts r s' c)"
  by (auto simp: accepts_Seq rmatch_lit)

lemma data_and_eol_sound:
  assumes "accepts data_and_eol s c"
  shows "\<exists>d e. s = d @ e \<and> c = [(4, d)] \<and> (\<forall>x\<in>set d. \<not> is_eol x) \<and> e \<noteq> [] \<and> (\<forall>x\<in>set e. is_eol x)"
proof -
  from assms obtain n where n: "n \<le> length (takeWhile (\<lambda>c. \<not> is_eol c) s)"
    and k: "Suc 0 \<le> length (drop n s)" "length (drop n s) \<le> length (takeWhile is_eol (drop n s))"
    and c: "c = [(4, take n s)]"
    unfolding data_and_eol_def accepts_Seq rmatch_Grp rmatch_Rep by (auto simp: accepts_def rmatch_Rep)
  have "\<forall>x\<in>set (drop n s). is_eol x"
    using take_takeWhile_all [OF k(2)] by simp
  moreover have "drop n s \<noteq> []" using k(1) by auto
  ultimately show ?thesis
    using c take_takeWhile_all [OF n] append_take_drop_id [of n s] by metis
qed

lemma opt_params_sound:
  assumes "(n, c) \<in> set (rmatch opt_params s)"
  shows "(n = 0 \<and> c = []) \<or>
    (\<exists>p. take n s = CHR '' '' # p \<and> c = [(2, CHR '' '' # p), (3, p)] \<and> p \<noteq> [])"
  using assms
  by (auto simp: opt_params_def rmatch_iffs not_newline_def Suc_le_eq)

lemma commandPatternGA_sound:
  assumes "full_match commandPatternGA line = Some m"
  shows "\<exists>mid eol. line = ''::'' @ group_of 1 m @ mid @ ''::'' @ group_of 4 m @ eol \<and>
    (mid = [] \<and> group_of 3 m = [] \<or> mid = '' '' @ group_of 3 m) \<and>
    CHR '' '' \<notin> set (group_of 1 m) \<and> (\<forall>x\<in>set (group_of 4 m). \<not> is_eol x) \<and>
    eol \<noteq> [] \<and> (\<forall>x\<in>set eol. is_eol x)"
proof -
  from full_match_accepts [OF assms] obtain s n k c2 c4 t where
    line: "line = ''::'' @ s" and n: "n \<le> length (takeWhile not_space s)" and
    k: "(k, c2) \<in> set (rmatch opt_params (drop n s))" and
    t: "drop k (drop n s) = ''::'' @ t" and
    c4: "accepts data_and_eol t c4" and
    m: "m = (1, take n s) # c2 @ c4"
    unfolding commandPatternGA_def seq_all.simps accepts_lit
    by (subst (asm) accepts_Seq, subst (asm) accepts_Seq) (force simp: accepts_lit rmatch_Grp rmatch_Rep)
  from data_and_eol_sound [OF c4] obtain d e where
    d: "t = d @ e" "c4 = [(4, d)]" "\<forall>x\<in>set d. \<not> is_eol x" "e \<noteq> []" "\<forall>x\<in>set e. is_eol x"
    by blast
  let ?mid = "take k (drop n s)"
  have s: "s = take n s @ ?mid @ ''::'' @ d @ e"
    by (metis append_take_drop_id d(1) t)
  have g1: "CHR '' '' \<notin> set (take n s)"
    using take_takeWhile_all [OF n] by (auto simp: not_space_def)
  from opt_params_sound [OF k] show ?thesis
  proof
    assume "k = 0 \<and> c2 = []"
    with line s m d g1 show ?thesis
      by (intro exI [of _ "[]"] exI [of _ e]) (simp add: group_of_def)
  next
    assume "\<exists>p. take k (drop n s) = CHR '' '' # p \<and> c2 = [(2, CHR '' '' # p), (3, p)] \<and> p \<noteq> []"
    then obtain p where "?mid = CHR '' '' # p" "c2 = [(2, CHR '' '' # p), (3, p)]" by blast
    with line s m d g1 show ?thesis
      by (intro exI [of _ ?mid] exI [of _ e]) (simp add: group_of_def)
  qed
qed

section \<open>Facts about the escapes\<close>

definition escape_char :: "char \<Rightarrow> string" where
  "escape_char c =
     (if c = CHR ''%'' then ''%25'' else if c = CHR 0x0D then ''%0D''
      else if c = CHR 0x0A then ''%0A'' else [c])"

lemma hit_single [simp]: "hit (c # s) ([d], n) \<longleftrightarrow> c = d"
  by (auto simp: hit_def)

lemma EscapeCommandData_Cons: "EscapeCommandData (c # s) = escape_char c @ EscapeCommandData s"
proof -
  have h: "hit (c # s) (''%'', x) \<longleftrightarrow> c = CHR ''%''" "hit (c # s) ([CHR 0x0D], x) \<longleftrightarrow> c = CHR 0x0D"
    "hit (c # s) ([CHR 0x0A], x) \<longleftrightarrow> c = CHR 0x0A" for x
    by auto
  show ?thesis
  proof (cases "find (hit (c # s)) commandDataEscaper")
    case None
    then have "c \<noteq> CHR ''%'' \<and> c \<noteq> CHR 0x0D \<and> c \<noteq> CHR 0x0A"
      by (auto simp: commandDataEscaper_def h split: if_splits)
    with None show ?thesis
      by (simp add: EscapeCommandData_def go_replace_miss escape_char_def)
  next
    case (Some p)
    then show ?thesis
      by (auto simp: EscapeCommandData_def go_replace_hit commandDataEscaper_def escape_char_def h
          split: if_splits)
  qed
qed

lemma EscapeCommandData_Nil [simp]: "EscapeCommandData [] = []"
  by (simp add: EscapeCommandData_def)

lemma Unescape_escape_char: "UnescapeCommandData (escape_char c @ s) = c # UnescapeCommandData s"
proof (cases "c = CHR ''%'' \<or> c = CHR 0x0D \<or> c = CHR 0x0A")
  case True
  then show ?thesis
    by (auto simp: UnescapeCommandData_def escape_char_def go_replace.simps [of _ "CHR ''%'' # _"]
        commandDataUnescaper_def hit_def)
next
  case False
  then have "find (hit (c # s)) commandDataUnescaper = None"
    using False by (auto simp: commandDataUnescaper_def hit_def)
  with False show ?thesis
    by (simp add: UnescapeCommandData_def escape_char_def go_replace_miss)
qed

lemma set_escape_char: "\<forall>d\<in>set (escape_char c). \<not> is_eol d"
  by (simp add: escape_char_def is_eol_def)

lemma EscapeCommandData_no_eol: "\<forall>d\<in>set (EscapeCommandData s). \<not> is_eol d"
  using set_escape_char by (induction s) (auto simp: EscapeCommandData_Cons)

lemma EscapeCommandData_roundtrip: "UnescapeCommandData (EscapeCommandData s) = s"
  by (induction s) (simp_all add: EscapeCommandData_Cons Unescape_escape_char UnescapeCommandData_def [of "[]"])

section \<open>Facts about the handler\<close>

text \<open>Two run contexts that agree on all but the log lines.\<close>

definition same_but_logs :: "'a run_context_scheme \<Rightarrow> 'a run_context_scheme \<Rightarrow> bool" where
  "same_but_logs rc rc' = (rc' = rc\<lparr>Logs := Logs rc'\<rparr>)"

lemma same_but_logs_refl [simp]: "same_but_logs rc rc"
  by (simp add: same_but_logs_def)

lemma same_but_logs_trans: "same_but_logs a b \<Longrightarrow> same_but_logs b c \<Longrightarrow> same_but_logs a c"
proof -
  assume "same_but_logs a b" "same_but_logs b c"
  then have b: "b = a\<lparr>Logs := Logs b\<rparr>" and c: "c = b\<lparr>Logs := Logs c\<rparr>"
    by (simp_all add: same_but_logs_def)
  have "c = (a\<lparr>Logs := Logs b\<rparr>)\<lparr>Logs := Logs c\<rparr>" using b c by metis
  then have "c = a\<lparr>Logs := Logs c\<rparr>" by simp
  then show ?thesis by (simp only: same_but_logs_def)
qed

lemma same_but_logs_log [simp]: "same_but_logs rc (log_at l r m rc)"
  by (simp add: same_but_logs_def log_at_def)

text \<open>The handler under a chunk of lines, as the log writer calls it.\<close>

definition handle_lines ::
  "string list \<Rightarrow> string \<times> 'a run_context_scheme \<Rightarrow> string \<times> 'a run_context_scheme" where
  "handle_lines = fold (handleLine [commandHandler])"

definition command_of :: "string \<Rightarrow> string option" where
  "command_of line = map_option fst (tryParseRawActionCommand line)"

lemma handle_lines_Cons:
  "handle_lines (l # ls) st = handle_lines ls (snd (commandHandler l st))"
  by (simp add: handle_lines_def split: prod.splits)

lemma commandHandler_stopped:
  assumes "token \<noteq> []"
  shows "\<exists>rc'. commandHandler line (token, rc) =
      (True, (if command_of line = Some token then [] else token, rc')) \<and> same_but_logs rc rc'"
  using assms
  by (auto simp: commandHandler_def command_of_def split: option.splits prod.splits)

lemma refuseUnsecureCommand_denied:
  "\<not> allowUnsecureCommandsOptIn rc \<Longrightarrow>
   \<exists>rc'. refuseUnsecureCommand command rc = (True, rc') \<and> Env rc' = Env rc \<and>
     GlobalEnv rc' = GlobalEnv rc \<and> ExtraPath rc' = ExtraPath rc \<and>
     unsecureCommandErr rc' =
       (case unsecureCommandErr rc of
          None \<Rightarrow> Some (Errorf (''the `'' @ command @ ''` workflow command is disabled''))
        | Some e \<Rightarrow> Some e)"
  by (auto simp: refuseUnsecureCommand_def Let_def split: option.splits)

text \<open>An empty run context, for the witnesses.\<close>

definition empty_rc :: run_context where
  "empty_rc = \<lparr>fired = [], next_source = 0, error_cells = Map.empty, next_cell = 0, Env = [],
     GlobalEnv = [], ExtraPath = [], CurrentStep = ''1'', CurrentStepIndex = 0, StepResults = [],
     IntraActionState = [], OutputMappings = [], Masks = [], summaryFileInitialized = [],
     jobCancelled = False, jobFailed = False, stepEnv = [], unsecureCommandErr = None,
     caseInsensitive = False, Logs = []\<rparr>"

lemma empty_rc_no_opt_in: "\<not> allowUnsecureCommandsOptIn empty_rc"
  by (simp add: allowUnsecureCommandsOptIn_def empty_rc_def currentStepEnv_def dict_get_def
      isTruthyEnv_def equal_fold_def to_lower_def)

lemma set_env_line:
  "full_match commandPatternGA (''::set-env name=X::v'' @ [CHR 0x0A]) =
     Some [(1, ''set-env''), (2, '' name=X''), (3, ''name=X''), (4, ''v'')]"
  by code_simp

lemma add_mask_line:
  "tryParseRawActionCommand (''::add-mask::s'' @ [CHR 0x0A]) = Some (''add-mask'', [], ''s'')"
  by code_simp

section \<open>Properties\<close>

text \<open>
  The data the runner escapes into a command line is decoded to itself again, whatever bytes
  it holds, and the escaped form fits on one line.
\<close>

theorem escape_command_data_roundtrip:
  "UnescapeCommandData (EscapeCommandData s) = s \<and>
   list_all (\<lambda>c. \<not> is_eol c) (EscapeCommandData s)"
  by (simp add: EscapeCommandData_roundtrip EscapeCommandData_no_eol list_all_iff)

text \<open>
  A parsed \<^verbatim>\<open>::\<close>-command is spelled out in its line: the command (without a space), an
  optional parameter list, the data up to the end of the line; nothing is made up or dropped.
\<close>

theorem parsed_command_is_in_line:
  assumes "full_match commandPatternGA line = Some m"
  shows "\<exists>command params data mid eol.
    tryParseRawActionCommand line = Some (command, parseKeyValuePairs params CHR '','', data) \<and>
    line = ''::'' @ command @ mid @ ''::'' @ data @ eol \<and>
    (mid = [] \<and> params = [] \<or> mid = '' '' @ params) \<and>
    CHR '' '' \<notin> set command \<and> (\<forall>c\<in>set data. \<not> is_eol c) \<and>
    eol \<noteq> [] \<and> (\<forall>c\<in>set eol. is_eol c)"
proof -
  have "tryParseRawActionCommand line =
      Some (group_of 1 m, parseKeyValuePairs (group_of 3 m) CHR '','', group_of 4 m)"
    using assms by (simp add: tryParseRawActionCommand_def)
  with commandPatternGA_sound [OF assms] show ?thesis by blast
qed

theorem parsed_command_is_in_line_witness:
  "full_match commandPatternGA (''::set-env name=X::v'' @ [CHR 0x0A]) \<noteq> None \<and>
   (\<exists>command params data mid eol.
     tryParseRawActionCommand (''::set-env name=X::v'' @ [CHR 0x0A]) =
       Some (command, parseKeyValuePairs params CHR '','', data) \<and>
     ''::set-env name=X::v'' @ [CHR 0x0A] = ''::'' @ command @ mid @ ''::'' @ data @ eol)"
  using parsed_command_is_in_line [OF set_env_line] set_env_line by blast

text \<open>
  C31: while \<^verbatim>\<open>::stop-commands::\<close> is in force no line changes anything but the log: until a line
  whose command is the end token arrives, the environment, path, outputs, state and masks stay as
  they are and the token stays in force.
\<close>

theorem stop_commands_suspends:
  assumes "token \<noteq> []" and "\<forall>line\<in>set ls. command_of line \<noteq> Some token"
  shows "\<exists>rc'. handle_lines ls (token, rc) = (token, rc') \<and> same_but_logs rc rc'"
  using assms(2)
proof (induction ls arbitrary: rc)
  case Nil
  then show ?case by (simp add: handle_lines_def)
next
  case (Cons l ls)
  obtain rc1 where 1: "commandHandler l (token, rc) = (True, (token, rc1))" "same_but_logs rc rc1"
    using commandHandler_stopped [OF assms(1), of l rc] Cons.prems by auto
  obtain rc2 where 2: "handle_lines ls (token, rc1) = (token, rc2)" "same_but_logs rc1 rc2"
    using Cons by auto
  show ?case
    using 1 2 same_but_logs_trans by (auto simp: handle_lines_Cons)
qed

theorem stop_commands_suspends_witness:
  "command_of (''::add-mask::s'' @ [CHR 0x0A]) \<noteq> Some ''tok'' \<and>
   (\<exists>rc'. handle_lines [''::add-mask::s'' @ [CHR 0x0A]] (''tok'', empty_rc) = (''tok'', rc') \<and>
      same_but_logs empty_rc rc')"
proof -
  have c: "\<forall>line\<in>set [''::add-mask::s'' @ [CHR 0x0A]]. command_of line \<noteq> Some ''tok''"
    using add_mask_line by (simp add: command_of_def)
  from stop_commands_suspends [OF _ c, of empty_rc] c show ?thesis by simp
qed

text \<open>
  C32: without an opt-in in any of the three environments, \<^verbatim>\<open>::set-env::\<close> and \<^verbatim>\<open>::add-path::\<close>
  change neither environment nor path, and leave the error that fails the step; the first refusal's
  error is the one kept.
\<close>

theorem unsecure_commands_refused:
  assumes "tryParseRawActionCommand line = Some (command, kvPairs, arg)"
    and "command = ''set-env'' \<or> command = ''add-path''"
    and "\<not> allowUnsecureCommandsOptIn rc"
  shows "\<exists>rc'. commandHandler line ([], rc) = (True, ([], rc')) \<and>
    Env rc' = Env rc \<and> GlobalEnv rc' = GlobalEnv rc \<and> ExtraPath rc' = ExtraPath rc \<and>
    fst (takeUnsecureCommandError rc') =
      (case unsecureCommandErr rc of
         None \<Rightarrow> Some (Errorf (''the `'' @ command @ ''` workflow command is disabled''))
       | Some e \<Rightarrow> Some e)"
  using assms refuseUnsecureCommand_denied [OF assms(3), of command]
  by (auto simp: commandHandler_def takeUnsecureCommandError_def Let_def)

theorem unsecure_commands_refused_witness:
  "\<not> allowUnsecureCommandsOptIn empty_rc \<and>
   (\<exists>rc'. commandHandler (''::set-env name=X::v'' @ [CHR 0x0A]) ([], empty_rc) = (True, ([], rc')) \<and>
      Env rc' = [] \<and> GlobalEnv rc' = [] \<and> ExtraPath rc' = [] \<and>
      fst (takeUnsecureCommandError rc') = Some (Errorf ''the `set-env` workflow command is disabled''))"
proof -
  have p: "tryParseRawActionCommand (''::set-env name=X::v'' @ [CHR 0x0A]) =
      Some (''set-env'', parseKeyValuePairs ''name=X'' CHR '','', ''v'')"
    using set_env_line by (simp add: tryParseRawActionCommand_def group_of_def)
  from unsecure_commands_refused [OF p _ empty_rc_no_opt_in] empty_rc_no_opt_in
  show ?thesis by (simp add: empty_rc_def)
qed

text \<open>
  Adding a path puts it in front, keeps the others in their order, and leaves no second copy.
\<close>

theorem addPath_front_once:
  "ExtraPath (addPath arg rc) = arg # filter (\<lambda>v. v \<noteq> arg) (ExtraPath rc) \<and>
   count_list (ExtraPath (addPath arg rc)) arg = 1"
  by (simp add: addPath_def count_list_0_iff)

end
