(* ===== verification/GoUtf8.thy ===== *)
theory GoUtf8
  imports Command
begin

text \<open>
  Strings as UTF-8: the runes a string splits into, the replacement of invalid bytes, and the calls of
  \<^verbatim>\<open>strings\<close> and \<^verbatim>\<open>regexp\<close> that go rune by rune. The table of lower case letters beyond ASCII is an argument.
\<close>

definition byte :: "char \<Rightarrow> nat" where
  "byte c = of_char c"

section \<open>UTF-8\<close>

text \<open>
  \<^verbatim>\<open>strings.ToValidUTF8\<close>: how long the valid encoding in front is (zero if there is none), and the
  replacement of each run of invalid bytes.
\<close>

definition cont :: "nat \<Rightarrow> nat \<Rightarrow> char \<Rightarrow> bool" where
  "cont lo hi c = (lo \<le> byte c \<and> byte c \<le> hi)"

definition utf8_two :: "char \<Rightarrow> char \<Rightarrow> bool" where
  "utf8_two a b = (cont 0xC2 0xDF a \<and> cont 0x80 0xBF b)"

definition utf8_three :: "char \<Rightarrow> char \<Rightarrow> char \<Rightarrow> bool" where
  "utf8_three a b c =
     (cont 0xE0 0xEF a \<and> cont 0x80 0xBF c \<and>
      cont (if byte a = 0xE0 then 0xA0 else 0x80) (if byte a = 0xED then 0x9F else 0xBF) b)"

definition utf8_four :: "char \<Rightarrow> char \<Rightarrow> char \<Rightarrow> char \<Rightarrow> bool" where
  "utf8_four a b c d =
     (cont 0xF0 0xF4 a \<and> cont 0x80 0xBF c \<and> cont 0x80 0xBF d \<and>
      cont (if byte a = 0xF0 then 0x90 else 0x80) (if byte a = 0xF4 then 0x8F else 0xBF) b)"

definition utf8_len :: "string \<Rightarrow> nat" where
  "utf8_len s =
     (case s of [] \<Rightarrow> 0
      | a # r \<Rightarrow> if byte a < 0x80 then 1 else
        (case r of [] \<Rightarrow> 0
         | b # r \<Rightarrow> if utf8_two a b then 2 else
           (case r of [] \<Rightarrow> 0
            | c # r \<Rightarrow> if utf8_three a b c then 3 else
              (case r of [] \<Rightarrow> 0 | d # r \<Rightarrow> if utf8_four a b c d then 4 else 0))))"

function to_valid_utf8 :: "bool \<Rightarrow> string \<Rightarrow> string \<Rightarrow> string" where
  "to_valid_utf8 in_bad replacement s =
     (if s = [] then []
      else if utf8_len s = 0 then (if in_bad then [] else replacement) @ to_valid_utf8 True replacement (tl s)
      else take (utf8_len s) s @ to_valid_utf8 False replacement (drop (utf8_len s) s))"
  by pat_completeness auto
termination by (relation "measure (\<lambda>(b, r, s). length s)") auto

declare to_valid_utf8.simps [simp del]

definition ToValidUTF8 :: "string \<Rightarrow> string \<Rightarrow> string" where
  "ToValidUTF8 s replacement = to_valid_utf8 False replacement s"

section \<open>Facts about UTF-8\<close>

function utf8_ok :: "string \<Rightarrow> bool" where
  "utf8_ok s = (if s = [] then True else if utf8_len s = 0 then False else utf8_ok (drop (utf8_len s) s))"
  by pat_completeness auto
termination by (relation "measure length") auto

declare utf8_ok.simps [simp del]

lemma utf8_len_bound: "utf8_len s \<le> length s"
  by (simp add: utf8_len_def split: list.split)

lemma utf8_len_take: "utf8_len s \<noteq> 0 \<Longrightarrow> utf8_len (take (utf8_len s) s @ t) = utf8_len s"
proof -
  assume "utf8_len s \<noteq> 0"
  then consider
    a r where "s = a # r" "byte a < 128"
  | a b r where "s = a # b # r" "\<not> byte a < 128" "utf8_two a b"
  | a b c r where "s = a # b # c # r" "\<not> byte a < 128" "\<not> utf8_two a b" "utf8_three a b c"
  | a b c d r where "s = a # b # c # d # r" "\<not> byte a < 128" "\<not> utf8_two a b" "\<not> utf8_three a b c"
      "utf8_four a b c d"
    unfolding utf8_len_def by (simp split: list.splits if_splits)
  then show ?thesis by cases (simp_all add: utf8_len_def)
qed

lemma utf8_ok_question: "utf8_ok s \<Longrightarrow> utf8_ok (CHR ''?'' # s)"
  by (subst utf8_ok.simps) (simp add: utf8_len_def byte_def)

lemma utf8_ok_unit: "utf8_len s \<noteq> 0 \<Longrightarrow> utf8_ok t \<Longrightarrow> utf8_ok (take (utf8_len s) s @ t)"
  by (subst utf8_ok.simps) (simp add: utf8_len_take utf8_len_bound)

lemma to_valid_utf8_ok: "utf8_ok (to_valid_utf8 b ''?'' s)"
proof (induction b "''?''" s rule: to_valid_utf8.induct)
  case (1 b s)
  have e: "utf8_ok []" by (simp add: utf8_ok.simps)
  show ?case
    by (subst to_valid_utf8.simps) (use 1 e in \<open>simp add: utf8_ok_unit utf8_ok_question\<close>)
qed

section \<open>Runes\<close>

text \<open>The runes of a string, each with its encoding; an invalid byte is a rune of its own.\<close>

function runes :: "string \<Rightarrow> string list" where
  "runes s = (if s = [] then [] else take (max 1 (utf8_len s)) s # runes (drop (max 1 (utf8_len s)) s))"
  by pat_completeness auto
termination by (relation "measure length") auto

declare runes.simps [simp del]

lemma runes_Nil [simp]: "runes [] = []"
  by (simp add: runes.simps)

lemma runes_ascii: "byte c < 128 \<Longrightarrow> runes (c # s) = [c] # runes s"
  by (subst runes.simps) (simp add: utf8_len_def)

text \<open>\<^verbatim>\<open>U+FFFD\<close>, which \<^verbatim>\<open>strings.Map\<close> writes for an invalid byte.\<close>

definition rune_error :: string where
  "rune_error = [CHR 0xEF, CHR 0xBF, CHR 0xBD]"

text \<open>\<^verbatim>\<open>strings.ToLower\<close>: bytes of an ASCII string, runes of any other.\<close>

definition ToLower :: "(string \<Rightarrow> string) \<Rightarrow> string \<Rightarrow> string" where
  "ToLower ulower s =
     concat (map (\<lambda>r. if utf8_len r = 0 then rune_error
       else if length r = 1 then to_lower r else ulower r) (runes s))"

text \<open>\<^verbatim>\<open>ReplaceAllString\<close> of one rune that is not an allowed ASCII character.\<close>

definition replace_other_runes :: "(char \<Rightarrow> bool) \<Rightarrow> string \<Rightarrow> string \<Rightarrow> string" where
  "replace_other_runes allowed rep s =
     concat (map (\<lambda>r. if length r = 1 \<and> byte (hd r) < 128 \<and> allowed (hd r) then r else rep) (runes s))"

lemma replace_other_runes_set:
  "set (replace_other_runes allowed rep s) \<subseteq> Collect allowed \<union> set rep"
  by (auto simp: replace_other_runes_def length_Suc_conv split: if_splits)

lemma replace_other_runes_id:
  "list_all (\<lambda>c. byte c < 128 \<and> allowed c) s \<Longrightarrow> replace_other_runes allowed rep s = s"
  by (induction s) (auto simp: replace_other_runes_def runes_ascii)

lemma ToLower_id:
  "list_all (\<lambda>c. byte c < 128 \<and> lower_char c = c) s \<Longrightarrow> ToLower ulower s = s"
  by (induction s) (auto simp: ToLower_def runes_ascii to_lower_def utf8_len_def)

end
