(* ===== verification/Masker.thy ===== *)
theory Masker
  imports GoUtf8
begin

text \<open>
  Secret masking, \<^verbatim>\<open>act/runner/logger.go\<close>: the patterns a secret is looked for under (its
  lines, their escaped form, and the encodings of the whole value), and the masker of a job's
  logger with its cache. The JSON encoders take their input to be valid UTF-8.
\<close>

section \<open>Base64\<close>

definition b64_alphabet :: string where
  "b64_alphabet = ''ABCDEFGHIJKLMNOPQRSTUVWXYZabcdefghijklmnopqrstuvwxyz0123456789+/''"

definition b64_char :: "nat \<Rightarrow> char" where
  "b64_char n = b64_alphabet ! n"

text \<open>\<^verbatim>\<open>base64.StdEncoding.EncodeToString\<close>: three bytes give four characters, padded at the end.\<close>

definition b64_quad :: "nat \<Rightarrow> nat \<Rightarrow> nat \<Rightarrow> string" where
  "b64_quad a b c =
     [b64_char (a div 4), b64_char (a mod 4 * 16 + b div 16),
      b64_char (b mod 16 * 4 + c div 64), b64_char (c mod 64)]"

fun base64 :: "string \<Rightarrow> string" where
  "base64 [] = []"
| "base64 [a] = take 2 (b64_quad (byte a) 0 0) @ ''==''"
| "base64 [a, b] = take 3 (b64_quad (byte a) (byte b) 0) @ ''=''"
| "base64 (a # b # c # s) = b64_quad (byte a) (byte b) (byte c) @ base64 s"

definition minShiftedBase64Len :: nat where "minShiftedBase64Len = 8"

definition base64ShiftEncoder :: "nat \<Rightarrow> string \<Rightarrow> string" where
  "base64ShiftEncoder shift v =
     (let buf = replicate shift (CHR 0x00) @ v;
          encoded = base64 buf
      in if length encoded < 8 + minShiftedBase64Len then []
         else drop 4 (take (length encoded - 4) encoded))"

section \<open>JSON and URL forms\<close>

definition hex_char :: "nat \<Rightarrow> char" where "hex_char n = ''0123456789abcdef'' ! n"
definition hex_upper :: "nat \<Rightarrow> char" where "hex_upper n = ''0123456789ABCDEF'' ! n"

definition json_char :: "bool \<Rightarrow> char \<Rightarrow> string" where
  "json_char escapeHTML c =
     (if c = CHR 0x22 \<or> c = CHR 0x5C then [CHR 0x5C, c]
      else if c = CHR 0x08 then [CHR 0x5C, CHR ''b'']
      else if c = CHR 0x0C then [CHR 0x5C, CHR ''f'']
      else if c = CHR 0x0A then [CHR 0x5C, CHR ''n'']
      else if c = CHR 0x0D then [CHR 0x5C, CHR ''r'']
      else if c = CHR 0x09 then [CHR 0x5C, CHR ''t'']
      else if byte c < 32 \<or> (escapeHTML \<and> (c = CHR ''<'' \<or> c = CHR ''>'' \<or> c = CHR ''&''))
      then [CHR 0x5C, CHR ''u'', CHR ''0'', CHR ''0'', hex_char (byte c div 16), hex_char (byte c mod 16)]
      else [c])"

fun json_string :: "bool \<Rightarrow> string \<Rightarrow> string" where
  "json_string h [] = []"
| "json_string h (c # s) =
     (case s of
        d # e # s' \<Rightarrow>
          if c = CHR 0xE2 \<and> d = CHR 0x80 \<and> (e = CHR 0xA8 \<or> e = CHR 0xA9)
          then [CHR 0x5C, CHR ''u'', CHR ''2'', CHR ''0'', CHR ''2'',
                if e = CHR 0xA8 then CHR ''8'' else CHR ''9''] @ json_string h s'
          else json_char h c @ json_string h s
      | _ \<Rightarrow> json_char h c @ json_string h s)"

definition jsonStringEscape :: "string \<Rightarrow> string" where
  "jsonStringEscape v = json_string True v"

definition jsonStringEscapeNoHTML :: "string \<Rightarrow> string" where
  "jsonStringEscapeNoHTML v = json_string False v"

definition url_unreserved :: "char \<Rightarrow> bool" where
  "url_unreserved c =
     (let n = byte c
      in (48 \<le> n \<and> n \<le> 57) \<or> (65 \<le> n \<and> n \<le> 90) \<or> (97 \<le> n \<and> n \<le> 122) \<or>
         c \<in> {CHR ''-'', CHR ''_'', CHR ''.'', CHR ''~''})"

definition percent :: "char \<Rightarrow> string" where
  "percent c = [CHR ''%'', hex_upper (byte c div 16), hex_upper (byte c mod 16)]"

definition QueryEscape :: "string \<Rightarrow> string" where
  "QueryEscape v = concat (map (\<lambda>c.
     if c = CHR '' '' then ''+'' else if url_unreserved c then [c] else percent c) v)"

definition PathEscape :: "string \<Rightarrow> string" where
  "PathEscape v = concat (map (\<lambda>c.
     if url_unreserved c \<or> c \<in> {CHR ''$'', CHR ''&'', CHR ''+'', CHR ''='', CHR '':'', CHR ''@''}
     then [c] else percent c) v)"

definition secretValueEncoders :: "(string \<Rightarrow> string) list" where
  "secretValueEncoders =
     [base64, base64ShiftEncoder 1, base64ShiftEncoder 2, jsonStringEscape, jsonStringEscapeNoHTML,
      QueryEscape, PathEscape]"

section \<open>Collecting the patterns of a secret\<close>

text \<open>
  The replacer's arguments, old and new in turn, are kept as pairs; \<^verbatim>\<open>slices.Contains\<close> looks at
  all of them.
\<close>

definition flat :: "(string \<times> string) list \<Rightarrow> string list" where
  "flat ret = concat (map (\<lambda>(x, y). [x, y]) ret)"

definition mask_line :: "string \<Rightarrow> (string \<times> string) list \<Rightarrow> (string \<times> string) list" where
  "mask_line l ret =
     (let tm = trim_space l
      in if 1 < length tm then
           (let ret = ret @ [(tm, ''***'')]
            in if \<exists>c\<in>set tm. c \<in> {CHR ''%'', CHR 0x0D, CHR 0x0A}
               then ret @ [(EscapeCommandData tm, ''***'')] else ret)
         else ret)"

definition mask_encoded ::
  "string \<Rightarrow> (string \<Rightarrow> string) \<Rightarrow> (string \<times> string) list \<Rightarrow> (string \<times> string) list" where
  "mask_encoded trimmed encode ret =
     (let encoded = encode trimmed
      in if encoded = trimmed \<or> length encoded \<le> 1 \<or> encoded \<in> set (flat ret) then ret
         else ret @ [(encoded, ''***'')])"

definition AppendSecretMasker :: "(string \<times> string) list \<Rightarrow> string \<Rightarrow> (string \<times> string) list" where
  "AppendSecretMasker oldnew v =
     (let ret = fold mask_line (split_at CHR 0x0A v) oldnew;
          trimmed = trim_space v
      in if length trimmed \<le> 1 then ret
         else fold (mask_encoded trimmed) secretValueEncoders ret)"

section \<open>The masker of a job's logger\<close>

text \<open>
  The cache: the mask slice it was built for (\<^verbatim>\<open>masksRef\<close>, the address of the slice), the pairs,
  how many masks they cover, and the replacer built from them.
\<close>

record masker_cache =
  masksRef :: "nat option"
  pairs :: "(string \<times> string) list"
  masked :: nat
  replacer :: "(string \<times> string) list option"

definition new_cache :: masker_cache where
  "new_cache = \<lparr>masksRef = None, pairs = [], masked = 0, replacer = None\<rparr>"

text \<open>An entry carries the address of the masks of its context, the masks and its message.\<close>

definition valueMasker ::
  "bool \<Rightarrow> (string \<times> string) list \<Rightarrow> nat \<times> string list \<times> string \<Rightarrow> masker_cache \<Rightarrow> string \<times> masker_cache" where
  "valueMasker insecureSecrets oldnew entry st =
     (case entry of (ref, masks, msg) \<Rightarrow>
        if insecureSecrets then (msg, st)
        else if masks = [] then (go_replace oldnew msg, st)
        else
          (let st = (if masksRef st \<noteq> Some ref
                     then \<lparr>masksRef = Some ref, pairs = oldnew, masked = 0, replacer = None\<rparr> else st);
               st = (if replacer st = None \<or> masked st \<noteq> length masks
                     then (let ps = fold (\<lambda>v ps. AppendSecretMasker ps v) (drop (masked st) masks) (pairs st)
                           in st\<lparr>pairs := ps, masked := length masks, replacer := Some ps\<rparr>)
                     else st)
           in (go_replace (case replacer st of None \<Rightarrow> [] | Some r \<Rightarrow> r) msg, st)))"

fun mask_entries ::
  "bool \<Rightarrow> (string \<times> string) list \<Rightarrow> (nat \<times> string list \<times> string) list \<Rightarrow> masker_cache \<Rightarrow> string list" where
  "mask_entries i oldnew [] st = []"
| "mask_entries i oldnew (e # es) st =
     (case valueMasker i oldnew e st of (out, st') \<Rightarrow> out # mask_entries i oldnew es st')"

section \<open>Facts about base64\<close>

lemma base64_append: "length x mod 3 = 0 \<Longrightarrow> base64 (x @ y) = base64 x @ base64 y"
  by (induction x rule: base64.induct) auto

lemma length_base64: "length (base64 x) = 4 * ((length x + 2) div 3)"
proof (induction x rule: base64.induct)
  case (4 a b c s)
  have "(length (a # b # c # s) + 2) div 3 = Suc ((length s + 2) div 3)"
    by simp
  then show ?case using 4 by (simp add: b64_quad_def)
qed (auto simp: b64_quad_def)

text \<open>What the shifted encoder keeps: the bytes of the value that fill whole groups.\<close>

lemma base64ShiftEncoder_middle:
  assumes "shift = 1 \<or> shift = 2" and "base64ShiftEncoder shift v \<noteq> []"
  obtains v1 v2 v3 where "v = v1 @ v2 @ v3" "length v1 + shift = 3" "length v2 mod 3 = 0"
    "base64ShiftEncoder shift v = base64 v2"
proof -
  let ?z = "replicate shift (CHR 0x00)"
  let ?buf = "?z @ v"
  from assms(2) have long: "16 \<le> length (base64 ?buf)"
    by (auto simp: base64ShiftEncoder_def Let_def minShiftedBase64Len_def split: if_splits)
  then have lv: "10 \<le> shift + length v"
    by (simp add: length_base64)
  define k where "k = (shift + length v + 2) div 3 - 2"
  let ?v1 = "take (3 - shift) v" and ?r = "drop (3 - shift) v"
  let ?v2 = "take (3 * k) ?r" and ?v3 = "drop (3 * k) ?r"
  have v: "v = ?v1 @ ?v2 @ ?v3" by (metis append_take_drop_id)
  have l1: "length ?v1 + shift = 3" using lv assms(1) by auto
  have l2: "length ?v2 = 3 * k"
    using lv assms(1) by (auto simp: k_def)
  have l3: "0 < length ?v3 \<and> length ?v3 \<le> 3"
    using lv assms(1) by (auto simp: k_def)
  have m1: "length (?z @ ?v1) mod 3 = 0" using l1 by (simp add: add.commute)
  have m2: "length ?v2 mod 3 = 0" using l2 by simp
  have "base64 ?buf = base64 ((?z @ ?v1) @ (?v2 @ ?v3))"
    using v by (metis append_assoc)
  also have "\<dots> = base64 (?z @ ?v1) @ base64 ?v2 @ base64 ?v3"
    by (simp only: base64_append [OF m1] base64_append [OF m2])
  finally have b: "base64 ?buf = base64 (?z @ ?v1) @ base64 ?v2 @ base64 ?v3" .
  have e1: "length (base64 (?z @ ?v1)) = 4" and e3: "length (base64 ?v3) = 4"
    using l1 l3 by (auto simp: length_base64 add.commute)
  have "base64ShiftEncoder shift v = base64 ?v2"
    using long e1 e3 by (simp add: base64ShiftEncoder_def Let_def minShiftedBase64Len_def b)
  then show ?thesis using v l1 l2 by (intro that [of ?v1 ?v2 ?v3]) auto
qed

section \<open>Facts about the replacer\<close>

text \<open>
  The output of a replacer, piece by piece: an input byte copied (with its position), or what was
  written for a match.
\<close>

datatype piece = Copied nat char | Written string

function scan :: "(string \<times> string) list \<Rightarrow> nat \<Rightarrow> string \<Rightarrow> piece list" where
  "scan ps i s =
     (case find (hit s) ps of
        Some p \<Rightarrow> Written (snd p) # scan ps (i + length (fst p)) (drop (length (fst p)) s)
      | None \<Rightarrow> (case s of [] \<Rightarrow> [] | c # s' \<Rightarrow> Copied i c # scan ps (Suc i) s'))"
  by pat_completeness auto
termination
proof (relation "measure (\<lambda>(ps, i, s). length s)")
  fix ps i s and p :: "string \<times> string"
  assume "find (hit s) ps = Some p"
  then have "hit s p" by (auto simp: find_Some_iff)
  then show "((ps, i + length (fst p), drop (length (fst p)) s), ps, i, s) \<in> measure (\<lambda>(ps, i, s). length s)"
    by (auto simp: hit_def has_prefix_iff)
qed auto

declare scan.simps [simp del]

fun piece_text :: "piece \<Rightarrow> string" where
  "piece_text (Copied i c) = [c]"
| "piece_text (Written w) = w"

lemma go_replace_scan: "go_replace ps s = concat (map piece_text (scan ps i s))"
proof (induction ps i s rule: scan.induct)
  case (1 ps i s)
  then show ?case
    by (simp add: scan.simps [of ps i s] go_replace.simps [of ps s] split: option.split list.split)
qed

lemma scan_Nil: "find (hit []) ps = None \<Longrightarrow> scan ps i [] = []"
  by (subst scan.simps) simp

lemma scan_miss: "find (hit (c # s)) ps = None \<Longrightarrow> scan ps i (c # s) = Copied i c # scan ps (Suc i) s"
  by (subst scan.simps) simp

lemma scan_copied:
  "Copied j c \<in> set (scan ps i s) \<Longrightarrow>
     i \<le> j \<and> j < i + length s \<and> find (hit (drop (j - i) s)) ps = None"
proof (induction ps i s rule: scan.induct)
  case (1 ps i s)
  show ?case
  proof (cases "find (hit s) ps")
    case (Some p)
    then have p: "hit s p" by (auto simp: find_Some_iff)
    then have le: "length (fst p) \<le> length s" by (auto simp: hit_def has_prefix_iff)
    from "1.prems" Some have "Copied j c \<in> set (scan ps (i + length (fst p)) (drop (length (fst p)) s))"
      by (simp add: scan.simps [of ps i s])
    from "1.IH"(2) [OF Some this] le show ?thesis
      by (auto simp: add.commute)
  next
    case None
    show ?thesis
    proof (cases s)
      case Nil
      from None Nil have "scan ps i s = []" by (simp only: scan_Nil)
      with "1.prems" show ?thesis by simp
    next
      case (Cons d s')
      show ?thesis
      proof (cases "Copied j c = Copied i d")
        case True
        with None Cons show ?thesis by simp
      next
        case False
        have "scan ps i s = Copied i d # scan ps (Suc i) s'"
          using None Cons scan_miss by blast
        with "1.prems" False have "Copied j c \<in> set (scan ps (Suc i) s')" by auto
        from "1.IH"(1) [OF None Cons this] Cons show ?thesis
          by (auto simp: Suc_diff_le drop_Cons split: nat.split)
           (metis Suc_diff_Suc Suc_le_lessD diff_Suc_Suc nat.inject)
      qed
    qed
  qed
qed

lemma scan_copied_char: "Copied j c \<in> set (scan ps i s) \<Longrightarrow> s ! (j - i) = c"
proof (induction ps i s rule: scan.induct)
  case (1 ps i s)
  show ?case
  proof (cases "find (hit s) ps")
    case (Some p)
    then have "hit s p" by (auto simp: find_Some_iff)
    then have le: "length (fst p) \<le> length s" by (auto simp: hit_def has_prefix_iff)
    from "1.prems" Some have cp: "Copied j c \<in> set (scan ps (i + length (fst p)) (drop (length (fst p)) s))"
      by (simp add: scan.simps [of ps i s])
    from scan_copied [OF cp] have "i + length (fst p) \<le> j" by simp
    with "1.IH"(2) [OF Some cp] le show ?thesis by (simp add: nth_drop)
  next
    case None
    show ?thesis
    proof (cases s)
      case Nil
      with None "1.prems" show ?thesis by (simp add: scan_Nil)
    next
      case (Cons d s')
      have sc: "scan ps i s = Copied i d # scan ps (Suc i) s'" using None Cons scan_miss by blast
      show ?thesis
      proof (cases "j = i \<and> c = d")
        case False
        with "1.prems" sc have cp: "Copied j c \<in> set (scan ps (Suc i) s')" by auto
        from scan_copied [OF cp] have "Suc i \<le> j" by simp
        with "1.IH"(1) [OF None Cons cp] Cons show ?thesis by (simp add: nth_Cons')
      qed (simp add: Cons)
    qed
  qed
qed

section \<open>Facts about the collected patterns\<close>

lemma mask_line_mono: "set ret \<subseteq> set (mask_line l ret)"
  by (auto simp: mask_line_def Let_def)

lemma fold_mask_line_mono: "set ret \<subseteq> set (fold mask_line ls ret)"
  using mask_line_mono by (induction ls arbitrary: ret) fastforce+

lemma mask_encoded_mono: "set ret \<subseteq> set (mask_encoded t f ret)"
  by (auto simp: mask_encoded_def Let_def)

lemma fold_mask_encoded_mono: "set ret \<subseteq> set (fold (mask_encoded t) fs ret)"
  using mask_encoded_mono by (induction fs arbitrary: ret) fastforce+

lemma AppendSecretMasker_mono: "set oldnew \<subseteq> set (AppendSecretMasker oldnew v)"
  using fold_mask_line_mono [of oldnew] fold_mask_encoded_mono
  by (fastforce simp: AppendSecretMasker_def Let_def)

lemma fold_mask_line_in:
  "l \<in> set ls \<Longrightarrow> 1 < length (trim_space l) \<Longrightarrow> (trim_space l, ''***'') \<in> set (fold mask_line ls ret)"
proof (induction ls arbitrary: ret)
  case (Cons k ls)
  show ?case
  proof (cases "l = k")
    case True
    with Cons.prems have "(trim_space l, ''***'') \<in> set (mask_line k ret)"
      by (auto simp: mask_line_def Let_def)
    with fold_mask_line_mono [of "mask_line k ret" ls] show ?thesis by auto
  qed (use Cons in auto)
qed simp

lemma AppendSecretMasker_in:
  assumes "l \<in> set (split_at CHR 0x0A v)" and "1 < length (trim_space l)"
  shows "(trim_space l, ''***'') \<in> set (AppendSecretMasker oldnew v)"
proof -
  have "(trim_space l, ''***'') \<in> set (fold mask_line (split_at CHR 0x0A v) oldnew)"
    using fold_mask_line_in assms by blast
  then show ?thesis
    using fold_mask_encoded_mono
    by (fastforce simp: AppendSecretMasker_def Let_def)
qed

text \<open>The reference for the cache: all masks of the slice, from scratch.\<close>

definition all_pairs :: "(string \<times> string) list \<Rightarrow> string list \<Rightarrow> (string \<times> string) list" where
  "all_pairs oldnew masks = fold (\<lambda>v ps. AppendSecretMasker ps v) masks oldnew"

definition cache_ok :: "(string \<times> string) list \<Rightarrow> (nat \<Rightarrow> string list) \<Rightarrow> masker_cache \<Rightarrow> bool" where
  "cache_ok oldnew seen st =
     (case masksRef st of
        None \<Rightarrow> True
      | Some ref \<Rightarrow>
          masked st \<le> length (seen ref) \<and> pairs st = all_pairs oldnew (take (masked st) (seen ref)) \<and>
          (replacer st = None \<and> masked st = 0 \<or> replacer st = Some (pairs st)))"

lemma valueMasker_step:
  assumes ok: "cache_ok oldnew seen st" and grows: "\<exists>more. masks = seen ref @ more"
  shows "\<exists>st'. valueMasker False oldnew (ref, masks, msg) st = (go_replace (all_pairs oldnew masks) msg, st') \<and>
    cache_ok oldnew (seen(ref := masks)) st'"
proof (cases "masks = []")
  case True
  with grows have "seen(ref := masks) = seen" by (auto simp: fun_eq_iff)
  with True ok show ?thesis by (simp add: valueMasker_def all_pairs_def)
next
  case False
  obtain more where more: "masks = seen ref @ more" using grows by blast
  define st1 where "st1 = (if masksRef st \<noteq> Some ref
    then \<lparr>masksRef = Some ref, pairs = oldnew, masked = 0, replacer = None\<rparr> else st)"
  have r1: "masksRef st1 = Some ref" by (simp add: st1_def)
  have p1: "pairs st1 = all_pairs oldnew (take (masked st1) masks)" and m1: "masked st1 \<le> length masks"
    and rep: "replacer st1 = None \<and> masked st1 = 0 \<or> replacer st1 = Some (pairs st1)"
    using ok more by (auto simp: st1_def cache_ok_def all_pairs_def split: if_splits)
  have rest: "fold (\<lambda>v ps. AppendSecretMasker ps v) (drop (masked st1) masks) (pairs st1) = all_pairs oldnew masks"
    unfolding p1 all_pairs_def by (metis append_take_drop_id comp_apply fold_append)
  let ?st2 = "if replacer st1 = None \<or> masked st1 \<noteq> length masks
    then st1\<lparr>pairs := all_pairs oldnew masks, masked := length masks, replacer := Some (all_pairs oldnew masks)\<rparr>
    else st1"
  have v: "valueMasker False oldnew (ref, masks, msg) st =
      (go_replace (case replacer ?st2 of None \<Rightarrow> [] | Some r \<Rightarrow> r) msg, ?st2)"
    using False by (simp add: valueMasker_def Let_def rest flip: st1_def)
  have full: "replacer ?st2 = Some (all_pairs oldnew masks)"
    using rep p1 by auto
  have "cache_ok oldnew (seen(ref := masks)) ?st2"
    using r1 p1 rep by (auto simp: cache_ok_def)
  with v full show ?thesis by auto
qed

text \<open>For every slice, a later entry's masks extend those of an earlier one.\<close>

fun masks_grow :: "(nat \<Rightarrow> string list) \<Rightarrow> (nat \<times> string list \<times> string) list \<Rightarrow> bool" where
  "masks_grow seen [] = True"
| "masks_grow seen ((ref, masks, msg) # es) =
     (take (length (seen ref)) masks = seen ref \<and> masks_grow (seen(ref := masks)) es)"

lemma mask_entries_ok:
  "cache_ok oldnew seen st \<Longrightarrow> masks_grow seen es \<Longrightarrow>
   mask_entries False oldnew es st = map (\<lambda>(ref, masks, msg). go_replace (all_pairs oldnew masks) msg) es"
proof (induction es arbitrary: seen st)
  case (Cons e es)
  obtain ref masks msg where e: "e = (ref, masks, msg)" by (cases e)
  from Cons.prems(2) e have "\<exists>more. masks = seen ref @ more"
    by (metis append_take_drop_id masks_grow.simps(2))
  from valueMasker_step [OF Cons.prems(1) this, of msg] obtain st' where
    v: "valueMasker False oldnew e st = (go_replace (all_pairs oldnew masks) msg, st')" and
    ok': "cache_ok oldnew (seen(ref := masks)) st'"
    using e by blast
  from Cons.prems(2) have g: "masks_grow (seen(ref := masks)) es"
    unfolding e masks_grow.simps by blast
  have "mask_entries False oldnew es st' =
      map (\<lambda>(ref, masks, msg). go_replace (all_pairs oldnew masks) msg) es"
    by (rule Cons.IH [OF ok' g])
  then show ?case using v e by simp
qed simp

section \<open>Properties\<close>

text \<open>
  The shifted base64 pattern of a secret occurs in the base64 of any payload that embeds the
  secret at that alignment, whatever stands before and behind it.
\<close>

theorem base64_shift_pattern_occurs:
  assumes "shift = 1 \<or> shift = 2" and "length before mod 3 = shift"
    and "base64ShiftEncoder shift v \<noteq> []"
  shows "\<exists>x y. base64 (before @ v @ after) = x @ base64ShiftEncoder shift v @ y"
proof -
  obtain v1 v2 v3 where v: "v = v1 @ v2 @ v3" and l1: "length v1 + shift = 3"
    and l2: "length v2 mod 3 = 0" and m: "base64ShiftEncoder shift v = base64 v2"
    using base64ShiftEncoder_middle [OF assms(1,3)] by blast
  have "(length before + length v1) mod 3 = (length before mod 3 + length v1) mod 3"
    by (simp add: mod_add_left_eq)
  then have b: "length (before @ v1) mod 3 = 0"
    using l1 assms(2) by (simp add: add.commute)
  have "base64 (before @ v @ after) = base64 ((before @ v1) @ (v2 @ (v3 @ after)))"
    by (simp add: v)
  also have "\<dots> = base64 (before @ v1) @ base64 v2 @ base64 (v3 @ after)"
    by (simp only: base64_append [OF b] base64_append [OF l2])
  finally show ?thesis using m by metis
qed

theorem base64_shift_pattern_occurs_witness:
  "base64ShiftEncoder 1 ''supersecret'' = ''cGVyc2Vj'' \<and>
   (\<exists>x y. base64 (''u'' @ ''supersecret'' @ ''!'') = x @ ''cGVyc2Vj'' @ y)"
proof -
  have e: "base64ShiftEncoder 1 ''supersecret'' = ''cGVyc2Vj''" by code_simp
  with base64_shift_pattern_occurs [of 1 "''u''" "''supersecret''" "''!''"] show ?thesis by simp
qed



text \<open>
  The cached masker masks every message as if its replacer were built from scratch, with the
  secrets and every mask added so far, as long as mask slices only grow at their end.
\<close>

theorem masker_cache_transparent:
  assumes "masks_grow (\<lambda>_. []) es"
  shows "mask_entries False oldnew es new_cache =
    map (\<lambda>(ref, masks, msg). go_replace (all_pairs oldnew masks) msg) es"
proof -
  have "cache_ok oldnew (\<lambda>_. []) new_cache"
    by (simp add: cache_ok_def new_cache_def)
  from mask_entries_ok [OF this assms] show ?thesis .
qed

theorem masker_cache_transparent_witness:
  "masks_grow (\<lambda>_. []) [(1, [''ab''], ''x''), (2, [], ''y''), (1, [''ab'', ''cd''], ''z'')] \<and>
   mask_entries False [] [(1, [''ab''], ''x''), (2, [], ''y''), (1, [''ab'', ''cd''], ''z'')] new_cache =
     [go_replace (all_pairs [] [''ab'']) ''x'', go_replace (all_pairs [] []) ''y'',
      go_replace (all_pairs [] [''ab'', ''cd'']) ''z'']"
proof -
  have g: "masks_grow (\<lambda>_. []) [(1, [''ab''], ''x''), (2, [], ''y''), (1, [''ab'', ''cd''], ''z'')]"
    by simp
  from masker_cache_transparent [OF g, of "[]"] g show ?thesis by simp
qed

end
