(* ===== verification/EnvFile.thy ===== *)
theory EnvFile
  imports GoText
begin

text \<open>
  The reader of env, output and path files, \<^verbatim>\<open>act/container/parse_env_file.go\<close>. The archive the
  container returns and the decoding by byte order mark (\<^verbatim>\<open>golang.org/x/text\<close>) are arguments; the
  scanner of the standard library, with its bound on a line, is written out.
\<close>

section \<open>The line scanner\<close>

text \<open>
  \<^verbatim>\<open>bufio.Scanner\<close> with \<^verbatim>\<open>ScanLines\<close>: a line ends at a newline, one carriage return before it is
  dropped, an empty rest is not a line, and a line that fills the buffer stops the scan for good.
\<close>

definition drop_cr :: "string \<Rightarrow> string" where
  "drop_cr l = (if l \<noteq> [] \<and> last l = CHR 0x0D then butlast l else l)"

definition raw_lines :: "string \<Rightarrow> string list" where
  "raw_lines s =
     (let ls = split_at CHR 0x0A s in if last ls = [] then butlast ls else ls)"

definition scanner_lines :: "nat \<Rightarrow> string \<Rightarrow> string list \<times> go_error option" where
  "scanner_lines max_token s =
     (let ls = raw_lines s;
          ok = takeWhile (\<lambda>l. length l < max_token) ls
      in (List.map drop_cr ok,
          if length ok < length ls then Some (Errorf ''bufio.Scanner: token too long'') else None))"

section \<open>The parser\<close>

definition max_env_line :: nat where "max_env_line = 16 * 1024 * 1024"

text \<open>The inner loop reads up to the delimiter: the content, the lines behind it, and whether it was found.\<close>

fun read_multiline :: "string \<Rightarrow> string \<Rightarrow> string list \<Rightarrow> string \<times> string list \<times> bool" where
  "read_multiline delimiter content [] = (content, [], False)"
| "read_multiline delimiter content (l # ls) =
     (if l = delimiter then (content, ls, True)
      else read_multiline delimiter ((if content \<noteq> [] then content @ [CHR 0x0A] else content) @ l) ls)"

lemma read_multiline_shorter [simp]:
  "read_multiline delimiter content ls = (c, rest, found) \<Longrightarrow> length rest \<le> length ls"
proof (induction delimiter content ls rule: read_multiline.induct)
  case (2 delimiter content l ls)
  then show ?case by (auto split: if_splits)
qed simp

definition reading_error :: "go_error \<Rightarrow> go_error" where
  "reading_error e = Wrap (''reading env file: '' @ error_string e) e"

definition delimiter_error :: "string \<Rightarrow> go_error" where
  "delimiter_error d = Errorf (''invalid format delimiter '' @ squote d @ '' not found before end of file'')"

definition format_error :: "string \<Rightarrow> go_error" where
  "format_error l = Errorf (''invalid format '' @ squote l @ '', expected a line with '' @ squote ''=''
     @ '' or '' @ squote ''<<'')"

definition is_single :: "string \<Rightarrow> nat option" where
  "is_single line =
     (case str_index ''='' line of
        None \<Rightarrow> None
      | Some i \<Rightarrow> (case str_index ''<<'' line of
                    None \<Rightarrow> Some i
                  | Some j \<Rightarrow> if i < j then Some i else None))"

text \<open>The error of the scanner is looked at when the lines have run out, in either loop.\<close>

function parse_env_lines :: "go_error option \<Rightarrow> string list \<Rightarrow> env \<Rightarrow> go_error option \<times> env" where
  "parse_env_lines scan_err [] localEnv = (map_option reading_error scan_err, localEnv)"
| "parse_env_lines scan_err (line # ls) localEnv =
     (if trim_space line = [] then parse_env_lines scan_err ls localEnv
      else case is_single line of
        Some i \<Rightarrow> parse_env_lines scan_err ls (dict_put (take i line) (drop (i + 1) line) localEnv)
      | None \<Rightarrow>
          (case str_index ''<<'' line of
             Some j \<Rightarrow>
               (case read_multiline (drop (j + 2) line) [] ls of
                  (content, rest, found) \<Rightarrow>
                    if \<not> found \<and> scan_err \<noteq> None then (map_option reading_error scan_err, localEnv)
                    else if \<not> found then (Some (delimiter_error (drop (j + 2) line)), localEnv)
                    else parse_env_lines scan_err rest (dict_put (take j line) content localEnv))
           | None \<Rightarrow> (Some (format_error line), localEnv)))"
  by pat_completeness auto
termination
  by (relation "measure (\<lambda>(e, ls, v). length ls)")
    (auto simp: less_Suc_eq_le dest: read_multiline_shorter [OF sym])

datatype archive = NoArchive | BadTar go_error | EmptyTar | TarEntry string

definition parseEnvFile :: "(string \<Rightarrow> string) \<Rightarrow> archive \<Rightarrow> env \<Rightarrow> go_error option \<times> env" where
  "parseEnvFile decode arch localEnv =
     (case arch of
        NoArchive \<Rightarrow> (None, localEnv)
      | BadTar e \<Rightarrow> (Some e, localEnv)
      | EmptyTar \<Rightarrow> (case scanner_lines max_env_line (decode []) of (ls, e) \<Rightarrow> parse_env_lines e ls localEnv)
      | TarEntry s \<Rightarrow> (case scanner_lines max_env_line (decode s) of (ls, e) \<Rightarrow> parse_env_lines e ls localEnv))"

section \<open>Facts\<close>

lemma read_multiline_found:
  "delimiter \<notin> set ls \<Longrightarrow> content \<noteq> [] \<Longrightarrow>
   read_multiline delimiter content (ls @ delimiter # rest) =
     (concat (content # List.map (\<lambda>l. CHR 0x0A # l) ls), rest, True)"
  by (induction ls arbitrary: content) auto

lemma concat_join: "concat (x # List.map (\<lambda>l. c # l) ls) = join [c] (x # ls)"
proof (induction ls arbitrary: x)
  case (Cons l ls)
  have "join [c] (x # l # ls) = x @ c # join [c] (l # ls)" by simp
  then show ?case using Cons.IH [of l] by simp
qed simp

lemma read_multiline_value:
  assumes "delimiter \<notin> set ls" and "ls = [] \<or> hd ls \<noteq> []"
  shows "read_multiline delimiter [] (ls @ delimiter # rest) = (join [CHR 0x0A] ls, rest, True)"
proof (cases ls)
  case (Cons l ls')
  with assms have "read_multiline delimiter l (ls' @ delimiter # rest) =
      (concat (l # List.map (\<lambda>l. CHR 0x0A # l) ls'), rest, True)"
    by (intro read_multiline_found) auto
  with Cons assms show ?thesis by (simp only: concat_join) auto
qed simp

text \<open>An unfinished block reads to the end.\<close>

lemma read_multiline_missing:
  "delimiter \<notin> set ls \<Longrightarrow> \<exists>c. read_multiline delimiter content ls = (c, [], False)"
  by (induction ls arbitrary: content) auto

text \<open>The lines a file of entries consists of: a pair on one line, or a block between a delimiter.\<close>

datatype entry = Single string string | Block string string "string list"

fun entry_lines :: "entry \<Rightarrow> string list" where
  "entry_lines (Single k v) = [k @ ''='' @ v]"
| "entry_lines (Block k delimiter ls) = (k @ ''<<'' @ delimiter) # ls @ [delimiter]"

fun entry_ok :: "entry \<Rightarrow> bool" where
  "entry_ok (Single k v) =
     (CHR ''='' \<notin> set k \<and> CHR ''<'' \<notin> set k)"
| "entry_ok (Block k delimiter ls) =
     (CHR ''='' \<notin> set k \<and> CHR ''<'' \<notin> set k \<and>
      delimiter \<notin> set ls \<and> (ls = [] \<or> hd ls \<noteq> []))"

fun entry_put :: "entry \<Rightarrow> env \<Rightarrow> env" where
  "entry_put (Single k v) d = dict_put k v d"
| "entry_put (Block k delimiter ls) d = dict_put k (join [CHR 0x0A] ls) d"

lemma str_index_skip:
  "c \<notin> set k \<Longrightarrow> str_index (c # p) (k @ s) = map_option (\<lambda>i. length k + i) (str_index (c # p) s)"
proof (induction k)
  case Nil
  show ?case by (cases "str_index (c # p) s") auto
next
  case (Cons d k)
  then show ?case by (cases "str_index (c # p) s") auto
qed

lemma is_single_entry:
  "CHR ''='' \<notin> set k \<Longrightarrow> CHR ''<'' \<notin> set k \<Longrightarrow> is_single (k @ ''='' @ v) = Some (length k)"
  by (auto simp: is_single_def str_index_skip split: option.split)

lemma is_single_block:
  "CHR ''='' \<notin> set k \<Longrightarrow> CHR ''<'' \<notin> set k \<Longrightarrow> is_single (k @ ''<<'' @ d) = None"
  by (auto simp: is_single_def str_index_skip split: option.split)

lemma str_index_block: "CHR ''<'' \<notin> set k \<Longrightarrow> str_index ''<<'' (k @ ''<<'' @ d) = Some (length k)"
  by (simp add: str_index_skip)

lemma not_blank: "CHR ''='' \<in> set l \<or> CHR ''<'' \<in> set l \<Longrightarrow> trim_space l \<noteq> []"
  using trim_space_keeps [of "CHR ''=''" l] trim_space_keeps [of "CHR ''<''" l]
  by (auto simp: go_spaces_def)

lemma parse_entry:
  assumes "entry_ok e"
  shows "parse_env_lines se (entry_lines e @ ls) d = parse_env_lines se ls (entry_put e d)"
proof (cases e)
  case (Single k v)
  have "trim_space (k @ ''='' @ v) \<noteq> []" by (intro not_blank) simp
  with Single assms show ?thesis
    using is_single_entry [of k v] by simp
next
  case (Block k delimiter vs)
  have b: "trim_space (k @ ''<<'' @ delimiter) \<noteq> []" by (intro not_blank) simp
  have m: "read_multiline delimiter [] (vs @ delimiter # ls) = (join [CHR 0x0A] vs, ls, True)"
    using Block assms by (intro read_multiline_value) auto
  show ?thesis
    using Block assms b m is_single_block [of k delimiter] str_index_block [of k delimiter]
    by simp
qed

lemma parse_entries:
  "list_all entry_ok es \<Longrightarrow>
   parse_env_lines se (concat (List.map entry_lines es) @ ls) d = parse_env_lines se ls (fold entry_put es d)"
  by (induction es arbitrary: d) (auto simp: parse_entry)

text \<open>A written file scans to its lines.\<close>

definition unlines :: "string list \<Rightarrow> string" where
  "unlines ls = concat (List.map (\<lambda>l. l @ [CHR 0x0A]) ls)"

definition line_ok :: "nat \<Rightarrow> string \<Rightarrow> bool" where
  "line_ok m l = (CHR 0x0A \<notin> set l \<and> length l < m \<and> (l = [] \<or> last l \<noteq> CHR 0x0D))"

lemma split_at_unlines: "list_all (line_ok m) ls \<Longrightarrow> split_at CHR 0x0A (unlines ls) = ls @ [[]]"
  by (induction ls) (auto simp: unlines_def line_ok_def split_at_glue)

lemma scanner_unlines: "list_all (line_ok m) ls \<Longrightarrow> scanner_lines m (unlines ls) = (ls, None)"
proof -
  assume ok: "list_all (line_ok m) ls"
  then have r: "raw_lines (unlines ls) = ls" by (simp add: raw_lines_def split_at_unlines Let_def)
  have t: "takeWhile (\<lambda>l. length l < m) ls = ls"
    using ok by (induction ls) (auto simp: line_ok_def)
  have c: "List.map drop_cr ls = ls"
    using ok by (induction ls) (auto simp: line_ok_def drop_cr_def)
  show ?thesis by (simp add: scanner_lines_def r t c)
qed

section \<open>Properties\<close>



text \<open>
  A block whose delimiter never comes is refused, and nothing of it reaches the environment: it
  holds the entries in front of the block and no more.
\<close>

theorem env_file_missing_delimiter:
  assumes "list_all entry_ok es" and "CHR ''='' \<notin> set k" and "CHR ''<'' \<notin> set k"
    and "delimiter \<notin> set vs"
  shows "parse_env_lines None (concat (List.map entry_lines es) @ (k @ ''<<'' @ delimiter) # vs) d =
    (Some (delimiter_error delimiter), fold entry_put es d)"
proof -
  have b: "trim_space (k @ ''<<'' @ delimiter) \<noteq> []" by (intro not_blank) simp
  obtain c where c: "read_multiline delimiter [] vs = (c, [], False)"
    using read_multiline_missing [OF assms(4)] by blast
  have "parse_env_lines None ((k @ ''<<'' @ delimiter) # vs) d' = (Some (delimiter_error delimiter), d')" for d'
    using b c is_single_block [OF assms(2,3), of delimiter] str_index_block [OF assms(3), of delimiter]
    by simp
  then show ?thesis using assms(1) by (simp only: parse_entries)
qed

theorem env_file_missing_delimiter_witness:
  "parse_env_lines None (concat (List.map entry_lines [Single ''A'' ''1'']) @ (''B'' @ ''<<'' @ ''EOF'') # [''x'', ''y'']) [] =
    (Some (delimiter_error ''EOF''), fold entry_put [Single ''A'' ''1''] [])"
  by (rule env_file_missing_delimiter) simp_all

text \<open>A block that starts with blank lines loses them: the content is still empty behind each.\<close>

lemma block_leading_blank_lines_lost:
  "parse_env_lines None [''B<<EOF'', [], [], ''x'', ''EOF''] [] = (None, [(''B'', ''x'')])"
  by code_simp

end
