(* ===== verification/Poller.thy ===== *)
theory Poller
  imports Executor "HOL-Library.Multiset"
begin

text \<open>
  The poller of the daemon, \<^verbatim>\<open>internal/app/poll/poller.go\<close>: its backoff, the handling of one
  fetch response, and the polling loop with the tasks it starts and its shutdown as a step relation.
  The response of the server, the random number of the jitter, the time and what the task runner
  answers are arguments or choices of the steps; metrics are left out.
\<close>

section \<open>State\<close>

record runner_config =
  FetchInterval :: int
  FetchIntervalMax :: int
  Capacity :: nat

record workerState =
  consecutiveEmpty :: int
  consecutiveErrors :: int
  lastBackoff :: int

record poller =
  tasksVersion :: int
  polling_cancelled :: bool
  jobs_cancelled :: bool
  poll_done :: bool
  unregistered :: bool
  lastHealthyPoll :: int
  lastPollFailed :: bool
  availabilityReady :: bool
  availabilityReason :: string
  poll_log :: "string list"

definition New :: "int \<Rightarrow> poller" where
  "New now = \<lparr>tasksVersion = 0, polling_cancelled = False, jobs_cancelled = False, poll_done = False,
     unregistered = False, lastHealthyPoll = now, lastPollFailed = False, availabilityReady = True,
     availabilityReason = ''ok'', poll_log = []\<rparr>"

definition new_worker :: workerState where
  "new_worker = \<lparr>consecutiveEmpty = 0, consecutiveErrors = 0, lastBackoff = 0\<rparr>"

section \<open>Backoff\<close>

definition resetBackoff :: "workerState \<Rightarrow> workerState" where
  "resetBackoff s = s\<lparr>consecutiveEmpty := 0, consecutiveErrors := 0, lastBackoff := 0\<rparr>"

definition calculateInterval :: "runner_config \<Rightarrow> workerState \<Rightarrow> int" where
  "calculateInterval cfg s =
     (let n = max (consecutiveEmpty s) (consecutiveErrors s)
      in if n \<le> 1 then FetchInterval cfg
         else (let shift = min (n - 1) 5;
                   interval = i64 (FetchInterval cfg * 2 ^ nat shift)
               in min interval (FetchIntervalMax cfg)))"

text \<open>\<^verbatim>\<open>rand.Int64N\<close> answers with some number below its argument, here \<^term>\<open>r\<close>.\<close>

definition addJitter :: "int \<Rightarrow> int \<Rightarrow> int" where
  "addJitter r d =
     (if d \<le> 0 then d
      else (let jitterRange = i64 (d * 2) div 5
            in if jitterRange \<le> 0 then d
               else i64 (d + (r mod jitterRange - jitterRange div 2))))"

text \<open>What \<^verbatim>\<open>waitBackoff\<close> does before it sleeps: the interval is remembered for the gauge.\<close>

definition waitBackoff_interval :: "runner_config \<Rightarrow> workerState \<Rightarrow> int \<times> workerState" where
  "waitBackoff_interval cfg s =
     (let base = calculateInterval cfg s
      in (base, if base \<noteq> lastBackoff s then s\<lparr>lastBackoff := base\<rparr> else s))"

section \<open>One fetch\<close>

text \<open>A failed call carries whether its code is \<^verbatim>\<open>Unauthenticated\<close>.\<close>

datatype 't fetch_resp = FetchErr go_error bool | FetchNil | FetchMsg int "'t option"

definition CompareAndSwap :: "int \<Rightarrow> int \<Rightarrow> int \<Rightarrow> int" where
  "CompareAndSwap old new x = (if x = old then new else x)"

definition markHealthyPoll :: "int \<Rightarrow> poller \<Rightarrow> poller" where
  "markHealthyPoll now p = p\<lparr>lastHealthyPoll := now, lastPollFailed := False\<rparr>"

definition shutdownPolling :: "poller \<Rightarrow> poller" where
  "shutdownPolling p = p\<lparr>polling_cancelled := True\<rparr>"

definition fetchTask ::
  "int \<Rightarrow> 't fetch_resp \<Rightarrow> workerState \<Rightarrow> poller \<Rightarrow> 't option \<times> workerState \<times> poller" where
  "fetchTask now resp s p =
     (case resp of
        FetchErr err unauthenticated \<Rightarrow>
          if errors_is err DeadlineExceeded then
            (None, s\<lparr>consecutiveEmpty := i64 (consecutiveEmpty s + 1), consecutiveErrors := 0\<rparr>, markHealthyPoll now p)
          else if unauthenticated then
            (None, s, shutdownPolling (p\<lparr>unregistered := True\<rparr>))
          else (None, s\<lparr>consecutiveErrors := i64 (consecutiveErrors s + 1)\<rparr>, p\<lparr>lastPollFailed := True\<rparr>)
      | FetchNil \<Rightarrow>
          (None, s\<lparr>consecutiveErrors := 0, consecutiveEmpty := i64 (consecutiveEmpty s + 1)\<rparr>, markHealthyPoll now p)
      | FetchMsg version task \<Rightarrow>
          (let v = tasksVersion p;
               p = markHealthyPoll now p;
               s = s\<lparr>consecutiveErrors := 0\<rparr>;
               p = (if v < version then p\<lparr>tasksVersion := CompareAndSwap v version (tasksVersion p)\<rparr> else p)
           in case task of
                None \<Rightarrow> (None, s\<lparr>consecutiveEmpty := i64 (consecutiveEmpty s + 1)\<rparr>, p)
              | Some t \<Rightarrow> (Some t, s, p\<lparr>tasksVersion := CompareAndSwap version 0 (tasksVersion p)\<rparr>)))"

section \<open>Availability\<close>

text \<open>What the runner answers to \<^verbatim>\<open>CanAcceptTask\<close>, if it has it.\<close>

definition localAvailability :: "(bool \<times> string) option \<Rightarrow> bool \<times> string" where
  "localAvailability can_accept = (case can_accept of Some a \<Rightarrow> a | None \<Rightarrow> (True, ''ok''))"

definition reportAvailability :: "bool \<Rightarrow> string \<Rightarrow> poller \<Rightarrow> poller" where
  "reportAvailability ready reason p =
     (let p = (if \<not> ready \<and> availabilityReady p
               then p\<lparr>poll_log := poll_log p @ [''runner temporarily unavailable: '' @ reason]\<rparr>
               else if ready \<and> \<not> availabilityReady p
               then p\<lparr>poll_log := poll_log p @ [''runner local health recovered, resuming task polling'']\<rparr>
               else p)
      in p\<lparr>availabilityReady := ready, availabilityReason := reason\<rparr>)"

definition Ready :: "int \<Rightarrow> int \<Rightarrow> poller \<Rightarrow> bool \<times> string" where
  "Ready now grace p =
     (if unregistered p then (False, ''runner is no longer registered'')
      else if \<not> availabilityReady p then (False, availabilityReason p)
      else if \<not> lastPollFailed p then (True, ''ok'')
      else if now - lastHealthyPoll p \<le> grace then (True, ''polling errors within grace period'')
      else (False, ''unable to poll Gitea''))"

section \<open>Polling once\<close>

text \<open>
  What one round meets: the runner's availability, the server's answer, the time, and whether the
  timer or the cancellation ends the wait behind it.
\<close>

record 't round =
  r_available :: "(bool \<times> string) option"
  r_resp :: "'t fetch_resp"
  r_now :: int
  r_timer :: bool

text \<open>The task \<^verbatim>\<open>PollOnce\<close> ran, when it has returned; \<^const>\<open>None\<close> when the rounds ran out first.\<close>

fun PollOnce ::
  "runner_config \<Rightarrow> 't round list \<Rightarrow> workerState \<Rightarrow> poller \<Rightarrow> ('t option \<times> poller) option" where
  "PollOnce cfg [] s p = None"
| "PollOnce cfg (r # rs) s p =
     (case localAvailability (r_available r) of (ready, reason) \<Rightarrow>
        (let p = reportAvailability ready reason p
         in if \<not> ready then
              (let s = snd (waitBackoff_interval cfg s)
               in if r_timer r then PollOnce cfg rs s p else Some (None, p\<lparr>poll_done := True\<rparr>))
            else
              (case fetchTask (r_now r) (r_resp r) s p of (task, s, p) \<Rightarrow>
                 (case task of
                    None \<Rightarrow>
                      (let s = snd (waitBackoff_interval cfg s)
                       in if r_timer r then PollOnce cfg rs s p else Some (None, p\<lparr>poll_done := True\<rparr>))
                  | Some t \<Rightarrow> Some (Some t, p\<lparr>poll_done := True\<rparr>)))))"

section \<open>The polling loop\<close>

text \<open>
  Where the loop stands, and where a call of \<^verbatim>\<open>Shutdown\<close> stands. The semaphore is a count of its
  tokens; a started task holds one until it ends.
\<close>

datatype poll_pc = Acquire | Check | Fetch | Idle | Wait | Drain | Closed
datatype shutdown_pc = NotCalled | Waiting | Forced go_error | Returned "go_error option"

record 't poll_sys = poller +
  pc :: poll_pc
  worker :: workerState
  sem :: nat
  running :: "'t list"
  received :: "'t list"
  finished :: "'t list"
  sd :: shutdown_pc

definition poll_init :: "int \<Rightarrow> 't poll_sys" where
  "poll_init now = poller.extend (New now)
     \<lparr>pc = Acquire, worker = new_worker, sem = 0, running = [], received = [], finished = [], sd = NotCalled\<rparr>"

definition on_poller :: "(poller \<Rightarrow> poller) \<Rightarrow> 't poll_sys \<Rightarrow> 't poll_sys" where
  "on_poller f s = poller.extend (f (poller.truncate s))
     \<lparr>pc = pc s, worker = worker s, sem = sem s, running = running s, received = received s, finished = finished s,
      sd = sd s\<rparr>"

text \<open>The steps of a call of \<^verbatim>\<open>Shutdown\<close>: it cancels the polling, waits, and past its deadline cancels the jobs.\<close>

inductive shutdown_step :: "'t poll_sys \<Rightarrow> 't poll_sys \<Rightarrow> bool" where
  call: "sd s = NotCalled \<Longrightarrow> shutdown_step s (s\<lparr>polling_cancelled := True, sd := Waiting\<rparr>)"
| in_time: "sd s = Waiting \<Longrightarrow> poll_done s \<Longrightarrow> shutdown_step s (s\<lparr>sd := Returned None\<rparr>)"
| late: "sd s = Waiting \<Longrightarrow> \<not> poll_done s \<Longrightarrow>
    shutdown_step s (s\<lparr>jobs_cancelled := True, sd := Forced e\<rparr>)"
| forced_end: "sd s = Forced e \<Longrightarrow> poll_done s \<Longrightarrow> shutdown_step s (s\<lparr>sd := Returned (Some e)\<rparr>)"

text \<open>The steps of \<^verbatim>\<open>Poll\<close>; the end of a task, whether with an error, a panic or neither, is one of them.\<close>

inductive poll_step :: "runner_config \<Rightarrow> 't poll_sys \<Rightarrow> 't poll_sys \<Rightarrow> bool" for cfg where
  acquire: "pc s = Acquire \<Longrightarrow> sem s < Capacity cfg \<Longrightarrow>
    poll_step cfg s (s\<lparr>sem := sem s + 1, pc := Check\<rparr>)"
| acquire_cancelled: "pc s = Acquire \<Longrightarrow> polling_cancelled s \<Longrightarrow> poll_step cfg s (s\<lparr>pc := Drain\<rparr>)"
| check: "pc s = Check \<Longrightarrow> localAvailability a = (ready, reason) \<Longrightarrow>
    poll_step cfg s ((on_poller (reportAvailability ready reason) s)\<lparr>pc := (if ready then Fetch else Idle)\<rparr>)"
| fetch_none: "pc s = Fetch \<Longrightarrow> fetchTask now (resp :: 't fetch_resp) (worker s) (poller.truncate s) = (None, w, p) \<Longrightarrow>
    poll_step cfg s ((on_poller (\<lambda>_. p) s)\<lparr>worker := w, pc := Idle\<rparr>)"
| fetch_task: "pc s = Fetch \<Longrightarrow> fetchTask now resp (worker s) (poller.truncate s) = (Some t, w, p) \<Longrightarrow>
    poll_step cfg s ((on_poller (\<lambda>_. p) s)\<lparr>worker := resetBackoff w, pc := Acquire,
      running := t # running s, received := t # received s\<rparr>)"
| idle: "pc s = Idle \<Longrightarrow>
    poll_step cfg s (s\<lparr>sem := sem s - 1, worker := snd (waitBackoff_interval cfg (worker s)), pc := Wait\<rparr>)"
| wait_timer: "pc s = Wait \<Longrightarrow> poll_step cfg s (s\<lparr>pc := Acquire\<rparr>)"
| wait_cancelled: "pc s = Wait \<Longrightarrow> polling_cancelled s \<Longrightarrow> poll_step cfg s (s\<lparr>pc := Drain\<rparr>)"
| task_end: "t \<in> set (running s) \<Longrightarrow>
    poll_step cfg s (s\<lparr>running := remove1 t (running s), finished := t # finished s, sem := sem s - 1\<rparr>)"
| drained: "pc s = Drain \<Longrightarrow> running s = [] \<Longrightarrow> poll_step cfg s (s\<lparr>pc := Closed, poll_done := True\<rparr>)"
| shutdown: "shutdown_step s s' \<Longrightarrow> poll_step cfg s s'"

inductive_cases poll_stepE: "poll_step cfg s s'"

definition poll_reach :: "runner_config \<Rightarrow> 't poll_sys \<Rightarrow> bool" where
  "poll_reach cfg s = (\<exists>now. (poll_step cfg)\<^sup>*\<^sup>* (poll_init now) s)"

section \<open>Facts about the backoff\<close>

lemma calculateInterval_short:
  "max (consecutiveEmpty s) (consecutiveErrors s) \<le> 1 \<Longrightarrow> calculateInterval cfg s = FetchInterval cfg"
  by (simp add: calculateInterval_def Let_def)

lemma interval_exact:
  assumes "0 \<le> b" and "b * 32 < 2 ^ 63" and "0 \<le> k" and "k \<le> 5"
  shows "i64 (b * 2 ^ nat k) = b * 2 ^ nat k"
proof (rule i64_id)
  have "(2::int) ^ nat k \<le> 2 ^ 5" using assms by (intro power_increasing) auto
  then have "b * 2 ^ nat k \<le> b * 32" using assms(1) mult_left_mono [of "2 ^ nat k" 32 b] by simp
  moreover have "0 \<le> b * 2 ^ nat k" using assms(1) by simp
  ultimately show "in_i64 (b * 2 ^ nat k)" using assms(2) unfolding in_i64_def by linarith
qed

lemma on_poller_simps [simp]:
  "pc (on_poller f s) = pc s" "worker (on_poller f s) = worker s" "sem (on_poller f s) = sem s"
  "running (on_poller f s) = running s" "received (on_poller f s) = received s"
  "finished (on_poller f s) = finished s" "sd (on_poller f s) = sd s"
  "poller.truncate (on_poller f s) = f (poller.truncate s)"
  "polling_cancelled (on_poller f s) = polling_cancelled (f (poller.truncate s))"
  "jobs_cancelled (on_poller f s) = jobs_cancelled (f (poller.truncate s))"
  "poll_done (on_poller f s) = poll_done (f (poller.truncate s))"
  "unregistered (on_poller f s) = unregistered (f (poller.truncate s))"
  by (simp_all add: on_poller_def poller.defs)

lemma truncate_simps [simp]:
  "polling_cancelled (poller.truncate s) = polling_cancelled s"
  "jobs_cancelled (poller.truncate s) = jobs_cancelled s"
  "poll_done (poller.truncate s) = poll_done s"
  "unregistered (poller.truncate s) = unregistered s"
  "tasksVersion (poller.truncate s) = tasksVersion s"
  by (simp_all add: poller.defs)

lemma reportAvailability_frame [simp]:
  "polling_cancelled (reportAvailability r m p) = polling_cancelled p"
  "jobs_cancelled (reportAvailability r m p) = jobs_cancelled p"
  "poll_done (reportAvailability r m p) = poll_done p"
  "unregistered (reportAvailability r m p) = unregistered p"
  "tasksVersion (reportAvailability r m p) = tasksVersion p"
  by (simp_all add: reportAvailability_def Let_def)

text \<open>A fetch touches neither the jobs nor the end of the loop, and cancels exactly by unregistering.\<close>

lemma fetchTask_frame:
  "fetchTask now resp w p = (t, w', p') \<Longrightarrow>
     jobs_cancelled p' = jobs_cancelled p \<and> poll_done p' = poll_done p \<and>
     (polling_cancelled p \<longrightarrow> polling_cancelled p') \<and>
     ((unregistered p \<longrightarrow> polling_cancelled p) \<longrightarrow> unregistered p' \<longrightarrow> polling_cancelled p')"
  by (auto simp: fetchTask_def markHealthyPoll_def shutdownPolling_def Let_def
      split: fetch_resp.splits if_splits option.splits)

section \<open>The invariant of the loop\<close>

definition holding :: "poll_pc \<Rightarrow> nat" where
  "holding c = (if c = Check \<or> c = Fetch \<or> c = Idle then 1 else 0)"

fun returned :: "shutdown_pc \<Rightarrow> bool" where
  "returned (Returned e) = True"
| "returned _ = False"

fun forced :: "shutdown_pc \<Rightarrow> bool" where
  "forced (Forced e) = True"
| "forced (Returned (Some e)) = True"
| "forced _ = False"

definition poll_inv :: "runner_config \<Rightarrow> 't poll_sys \<Rightarrow> bool" where
  "poll_inv cfg s =
     (sem s = length (running s) + holding (pc s) \<and> sem s \<le> Capacity cfg \<and>
      mset (received s) = mset (running s) + mset (finished s) \<and>
      (poll_done s \<longleftrightarrow> pc s = Closed) \<and> (pc s = Closed \<longrightarrow> running s = []) \<and>
      (pc s \<in> {Drain, Closed} \<longrightarrow> polling_cancelled s) \<and>
      (unregistered s \<longrightarrow> polling_cancelled s) \<and>
      (sd s \<noteq> NotCalled \<longrightarrow> polling_cancelled s) \<and>
      (returned (sd s) \<longrightarrow> pc s = Closed) \<and>
      (jobs_cancelled s \<longrightarrow> forced (sd s)))"

lemma poll_inv_init: "poll_inv cfg (poll_init now)"
  by (simp add: poll_inv_def poll_init_def New_def holding_def poller.defs)

lemma shutdown_inv_step: "shutdown_step s s' \<Longrightarrow> poll_inv cfg s \<Longrightarrow> poll_inv cfg s'"
  by (induction rule: shutdown_step.induct) (simp_all add: poll_inv_def holding_def)

lemma poll_inv_step: "poll_step cfg s s' \<Longrightarrow> poll_inv cfg s \<Longrightarrow> poll_inv cfg s'"
proof (induction rule: poll_step.induct)
  case (fetch_none s now resp w p)
  then show ?case using fetchTask_frame [OF fetch_none(2)] by (simp add: poll_inv_def holding_def)
next
  case (fetch_task s now resp t w p)
  then show ?case using fetchTask_frame [OF fetch_task(2)] by (simp add: poll_inv_def holding_def)
next
  case (task_end t s)
  have l: "length (remove1 t (running s)) = length (running s) - 1" "running s \<noteq> []"
    and m: "mset (running s) = add_mset t (mset (remove1 t (running s)))"
    using task_end.hyps by (auto simp: length_remove1)
  then obtain n where n: "length (running s) = Suc n" by (cases "running s") auto
  then have e: "running s = [] \<longleftrightarrow> False" by auto
  with n l m task_end.prems show ?case unfolding poll_inv_def by simp
next
  case (shutdown s s')
  then show ?case by (rule shutdown_inv_step)
qed (simp_all add: poll_inv_def holding_def)

lemma poll_inv_steps: "(poll_step cfg)\<^sup>*\<^sup>* s s' \<Longrightarrow> poll_inv cfg s \<Longrightarrow> poll_inv cfg s'"
  by (induction rule: rtranclp_induct) (auto intro: poll_inv_step)

lemma poll_inv_reach: "poll_reach cfg s \<Longrightarrow> poll_inv cfg s"
  by (auto simp: poll_reach_def intro: poll_inv_steps poll_inv_init)

section \<open>Draining\<close>

lemma drain_tasks:
  "pc s = Drain \<Longrightarrow> \<exists>s'. (poll_step cfg)\<^sup>*\<^sup>* s s' \<and> pc s' = Drain \<and> running s' = [] \<and> received s' = received s"
proof (induction "length (running s)" arbitrary: s)
  case (Suc n)
  then obtain t ts where r: "running s = t # ts" by (cases "running s") auto
  let ?s = "s\<lparr>running := remove1 t (running s), finished := t # finished s, sem := sem s - 1\<rparr>"
  have st: "poll_step cfg s ?s" using r by (intro task_end) simp
  have "n = length (running ?s)" "pc ?s = Drain" using Suc r by simp_all
  from Suc.hyps(1) [OF this] obtain s' where
    "(poll_step cfg)\<^sup>*\<^sup>* ?s s' \<and> pc s' = Drain \<and> running s' = [] \<and> received s' = received s" by auto
  with st show ?case by (meson converse_rtranclp_into_rtranclp)
qed auto

lemma step_to_drain:
  assumes "polling_cancelled s" and "pc s \<noteq> Closed"
  shows "\<exists>s'. (poll_step cfg)\<^sup>*\<^sup>* s s' \<and> pc s' = Drain \<and> received s' = received s"
proof -
  have wait: "\<exists>s'. (poll_step cfg)\<^sup>*\<^sup>* s s' \<and> pc s' = Drain \<and> received s' = received s"
    if "polling_cancelled s" "pc s = Wait \<or> pc s = Acquire" for s :: "'a poll_sys"
    using that acquire_cancelled [of s cfg] wait_cancelled [of s cfg]
    by (intro exI [of _ "s\<lparr>pc := Drain\<rparr>"]) auto
  have idle: "\<exists>s'. (poll_step cfg)\<^sup>*\<^sup>* s s' \<and> pc s' = Drain \<and> received s' = received s"
    if "polling_cancelled s" "pc s = Idle" for s :: "'a poll_sys"
  proof -
    let ?s = "s\<lparr>sem := sem s - 1, worker := snd (waitBackoff_interval cfg (worker s)), pc := Wait\<rparr>"
    have "poll_step cfg s ?s" using that by (intro poll_step.idle)
    moreover have "polling_cancelled ?s" "pc ?s = Wait" "received ?s = received s" using that by simp_all
    ultimately show ?thesis using wait [of ?s] by (metis converse_rtranclp_into_rtranclp)
  qed
  have check: "\<exists>s'. (poll_step cfg)\<^sup>*\<^sup>* s s' \<and> pc s' = Drain \<and> received s' = received s"
    if "polling_cancelled s" "pc s = Check" for s :: "'a poll_sys"
  proof -
    let ?s = "(on_poller (reportAvailability False []) s)\<lparr>pc := (if False then Fetch else Idle)\<rparr>"
    have "poll_step cfg s ?s"
      by (rule poll_step.check [of _ "Some (False, [])"]) (use that in \<open>simp_all add: localAvailability_def\<close>)
    moreover have "polling_cancelled ?s" "pc ?s = Idle" "received ?s = received s" using that by simp_all
    ultimately show ?thesis using idle [of ?s] by (metis converse_rtranclp_into_rtranclp)
  qed
  have fetch: "\<exists>s'. (poll_step cfg)\<^sup>*\<^sup>* s s' \<and> pc s' = Drain \<and> received s' = received s"
    if "polling_cancelled s" "pc s = Fetch" for s :: "'a poll_sys"
  proof -
    obtain t w p where f: "fetchTask 0 (FetchNil :: 'a fetch_resp) (worker s) (poller.truncate s) = (t, w, p)"
      by (cases "fetchTask 0 (FetchNil :: 'a fetch_resp) (worker s) (poller.truncate s)")
    then have t: "t = None" by (auto simp: fetchTask_def)
    let ?s = "(on_poller (\<lambda>_. p) s)\<lparr>worker := w, pc := Idle\<rparr>"
    have "poll_step cfg s ?s" using that f t by (intro fetch_none) simp_all
    moreover have "polling_cancelled ?s" "pc ?s = Idle" "received ?s = received s"
      using that fetchTask_frame [OF f] by simp_all
    ultimately show ?thesis using idle [of ?s] by (metis converse_rtranclp_into_rtranclp)
  qed
  show ?thesis
  proof (cases "pc s")
    case Drain
    then show ?thesis by blast
  qed (use assms wait idle check fetch in blast)+
qed

section \<open>The bounded pool\<close>

text \<open>
  What the loop promises: a pool of at most \<^verbatim>\<open>Capacity\<close> running tasks, in which a task is started
  once and leaves by ending.
\<close>

inductive pool_step :: "nat \<Rightarrow> 't multiset \<times> 't multiset \<Rightarrow> 't multiset \<times> 't multiset \<Rightarrow> bool" for c where
  pool_start: "size R < c \<Longrightarrow> pool_step c (R, F) (add_mset t R, F)"
| pool_finish: "pool_step c (add_mset t R, F) (R, add_mset t F)"

definition pool_of :: "'t poll_sys \<Rightarrow> 't multiset \<times> 't multiset" where
  "pool_of s = (mset (running s), mset (finished s))"

lemma pool_simulation:
  "poll_step cfg s s' \<Longrightarrow> poll_inv cfg s \<Longrightarrow> pool_of s' = pool_of s \<or> pool_step (Capacity cfg) (pool_of s) (pool_of s')"
proof (induction rule: poll_step.induct)
  case (fetch_task s now resp t w p)
  then have "size (mset (running s)) < Capacity cfg" by (simp add: poll_inv_def holding_def)
  then show ?case using pool_start [of "mset (running s)" "Capacity cfg" "mset (finished s)" t]
    by (simp add: pool_of_def)
next
  case (task_end t s)
  then have "mset (running s) = add_mset t (mset (remove1 t (running s)))" by simp
  then show ?case
    using pool_finish [of "Capacity cfg" t "mset (remove1 t (running s))" "mset (finished s)"]
    by (simp add: pool_of_def)
next
  case (shutdown s s')
  then show ?case by (induction rule: shutdown_step.induct) (simp_all add: pool_of_def)
qed (simp_all add: pool_of_def)

section \<open>Properties\<close>

text \<open>A run in which one task was fetched and is running, and one in which it has ended and the loop is shut down.\<close>

definition demo_cfg :: runner_config where
  "demo_cfg = \<lparr>FetchInterval = 2000, FetchIntervalMax = 5000, Capacity = 1\<rparr>"

lemma demo_reach:
  "\<exists>s :: nat poll_sys. poll_reach demo_cfg s \<and> running s = [7] \<and> received s = [7] \<and> finished s = []
     \<and> pc s = Acquire \<and> sd s = NotCalled"
proof -
  let ?s0 = "poll_init 0 :: nat poll_sys"
  let ?s1 = "?s0\<lparr>sem := sem ?s0 + 1, pc := Check\<rparr>"
  let ?s2 = "(on_poller (reportAvailability True ''ok'') ?s1)\<lparr>pc := (if True then Fetch else Idle)\<rparr>"
  obtain t w p where f: "fetchTask 0 (FetchMsg 1 (Some (7 :: nat))) (worker ?s2) (poller.truncate ?s2) = (t, w, p)"
    by (cases "fetchTask 0 (FetchMsg 1 (Some (7 :: nat))) (worker ?s2) (poller.truncate ?s2)")
  have t: "t = Some 7" using f by (simp add: fetchTask_def Let_def)
  let ?s3 = "(on_poller (\<lambda>_. p) ?s2)\<lparr>worker := resetBackoff w, pc := Acquire,
      running := 7 # running ?s2, received := 7 # received ?s2\<rparr>"
  have "poll_step demo_cfg ?s0 ?s1"
    by (intro acquire) (simp_all add: poll_init_def poller.defs demo_cfg_def)
  moreover have "poll_step demo_cfg ?s1 ?s2"
    by (rule check [of _ None]) (simp_all add: localAvailability_def)
  moreover have "poll_step demo_cfg ?s2 ?s3"
    using f unfolding t by (intro fetch_task) simp_all
  ultimately have "(poll_step demo_cfg)\<^sup>*\<^sup>* ?s0 ?s3" by (meson converse_rtranclp_into_rtranclp rtranclp.rtrancl_refl)
  then show ?thesis
    unfolding poll_reach_def by (intro exI [of _ ?s3]) (auto simp: poll_init_def poller.defs)
qed

text \<open>
  C12: whatever the server answers and however tasks end, no more than the configured number of
  tasks run at a time, every task received is running or has ended, exactly once, and the loop is
  done only when none runs.
\<close>

theorem poll_loop_invariant:
  assumes "poll_reach cfg s"
  shows "length (running s) \<le> Capacity cfg \<and> mset (received s) = mset (running s) + mset (finished s) \<and>
    poll_done s = (pc s = Closed) \<and> (running s = [] \<or> \<not> poll_done s)"
  using poll_inv_reach [OF assms] unfolding poll_inv_def by auto

theorem poll_loop_invariant_witness:
  "\<exists>s :: nat poll_sys. running s = [7] \<and> length (running s) \<le> Capacity demo_cfg \<and>
     mset (received s) = mset (running s) + mset (finished s)"
proof -
  obtain s :: "nat poll_sys" where s: "poll_reach demo_cfg s" "running s = [7]"
    using demo_reach by blast
  from poll_loop_invariant [OF s(1)] s(2) show ?thesis by blast
qed

text \<open>
  C11: each step of the loop is a step of the bounded pool or leaves the pool alone.
\<close>

theorem poll_refines_pool:
  assumes "poll_reach cfg s" and "poll_step cfg s s'"
  shows "(pool_step (Capacity cfg))\<^sup>=\<^sup>= (pool_of s) (pool_of s')"
  using pool_simulation [OF assms(2) poll_inv_reach [OF assms(1)]] by auto

theorem poll_refines_pool_witness:
  "\<exists>s s' :: nat poll_sys. pool_of s' = ({#}, {#7#}) \<and> (pool_step (Capacity demo_cfg))\<^sup>=\<^sup>= (pool_of s) (pool_of s')"
proof -
  obtain s :: "nat poll_sys" where s: "poll_reach demo_cfg s" "running s = [7]" "finished s = []"
    using demo_reach by blast
  let ?s = "s\<lparr>running := remove1 7 (running s), finished := 7 # finished s, sem := sem s - 1\<rparr>"
  have "poll_step demo_cfg s ?s" using s by (intro task_end) simp
  from poll_refines_pool [OF s(1) this] show ?thesis using s by (intro exI [of _ s] exI [of _ ?s]) (simp add: pool_of_def)
qed

text \<open>
  C34: a shutdown returns only after the loop is done and every task received has ended; the jobs
  are cancelled only when the deadline of the shutdown passed, and then it returns that error.
\<close>

theorem shutdown_waits_for_tasks:
  assumes "poll_reach cfg s" and "sd s = Returned e"
  shows "poll_done s \<and> running s = [] \<and> mset (finished s) = mset (received s) \<and>
    polling_cancelled s \<and> (e \<noteq> None \<or> \<not> jobs_cancelled s)"
  using poll_inv_reach [OF assms(1)] assms(2) unfolding poll_inv_def by (cases e) auto

theorem shutdown_waits_for_tasks_witness:
  "\<exists>s :: nat poll_sys. sd s = Returned None \<and> poll_done s \<and> running s = [] \<and> \<not> jobs_cancelled s"
proof -
  let ?c = demo_cfg
  let ?s0 = "poll_init 0 :: nat poll_sys"
  let ?s1 = "?s0\<lparr>polling_cancelled := True, sd := Waiting\<rparr>"
  let ?s2 = "?s1\<lparr>pc := Drain\<rparr>"
  let ?s3 = "?s2\<lparr>pc := Closed, poll_done := True\<rparr>"
  let ?s4 = "?s3\<lparr>sd := Returned None\<rparr>"
  have "poll_step ?c ?s0 ?s1" by (intro shutdown call) (simp add: poll_init_def poller.defs)
  moreover have "poll_step ?c ?s1 ?s2" by (intro acquire_cancelled) (simp_all add: poll_init_def poller.defs)
  moreover have "poll_step ?c ?s2 ?s3" by (intro drained) (simp_all add: poll_init_def poller.defs)
  moreover have "poll_step ?c ?s3 ?s4" by (intro shutdown in_time) simp_all
  ultimately have "(poll_step ?c)\<^sup>*\<^sup>* ?s0 ?s4"
    by (meson converse_rtranclp_into_rtranclp rtranclp.rtrancl_refl)
  then have r: "poll_reach ?c ?s4" unfolding poll_reach_def by blast
  have e: "sd ?s4 = Returned None" by simp
  show ?thesis using shutdown_waits_for_tasks [OF r e] e by blast
qed

text \<open>
  C35: once polling is cancelled the loop can always come to its end, without taking another task:
  from every reachable state there is a run that ends every task and closes it.
\<close>

theorem cancelled_loop_can_end:
  assumes "poll_reach cfg s" and "polling_cancelled s"
  shows "\<exists>s'. (poll_step cfg)\<^sup>*\<^sup>* s s' \<and> poll_done s' \<and> mset (finished s') = mset (received s)"
proof (cases "pc s = Closed")
  case True
  with poll_inv_reach [OF assms(1)] show ?thesis by (auto simp: poll_inv_def)
next
  case False
  obtain s1 where s1: "(poll_step cfg)\<^sup>*\<^sup>* s s1" "pc s1 = Drain" "received s1 = received s"
    using step_to_drain [OF assms(2) False] by blast
  obtain s2 where s2: "(poll_step cfg)\<^sup>*\<^sup>* s1 s2" "pc s2 = Drain" "running s2 = []" "received s2 = received s1"
    using drain_tasks [OF s1(2)] by blast
  let ?s3 = "s2\<lparr>pc := Closed, poll_done := True\<rparr>"
  have run: "(poll_step cfg)\<^sup>*\<^sup>* s ?s3"
    using s1(1) s2(1) drained [OF s2(2,3), of cfg] by (meson rtranclp.rtrancl_into_rtrancl rtranclp_trans)
  then have "poll_inv cfg ?s3" using poll_inv_steps poll_inv_reach [OF assms(1)] by blast
  then have "mset (finished ?s3) = mset (received s)" using s2 s1 by (simp add: poll_inv_def)
  then show ?thesis using run by (intro exI [of _ ?s3]) simp
qed

theorem cancelled_loop_can_end_witness:
  "\<exists>s s' :: nat poll_sys. running s = [7] \<and> (poll_step demo_cfg)\<^sup>*\<^sup>* s s' \<and> poll_done s' \<and> finished s' = [7]"
proof -
  obtain s :: "nat poll_sys" where s: "poll_reach demo_cfg s" "running s = [7]" "received s = [7]" "sd s = NotCalled"
    using demo_reach by blast
  let ?s = "s\<lparr>polling_cancelled := True, sd := Waiting\<rparr>"
  have "poll_step demo_cfg s ?s" using s(4) by (intro shutdown call)
  then have r: "poll_reach demo_cfg ?s" using s(1) by (auto simp: poll_reach_def intro: rtranclp.rtrancl_into_rtrancl)
  from cancelled_loop_can_end [OF r] obtain s' where
    "(poll_step demo_cfg)\<^sup>*\<^sup>* ?s s'" "poll_done s'" "mset (finished s') = mset [7]" using s by auto
  then show ?thesis using s(2) by (intro exI [of _ ?s] exI [of _ s']) simp
qed

text \<open>
  C36: the interval doubles with the consecutive empty or failed fetches, at most to the 32-fold,
  and stays between the configured interval and its maximum.
\<close>

theorem backoff_interval:
  assumes "0 \<le> FetchInterval cfg" and "FetchInterval cfg * 32 < 2 ^ 63"
    and "FetchInterval cfg \<le> FetchIntervalMax cfg"
  shows "calculateInterval cfg s =
      min (FetchInterval cfg * 2 ^ nat (min (max (consecutiveEmpty s) (consecutiveErrors s) - 1) 5)) (FetchIntervalMax cfg) \<and>
    FetchInterval cfg \<le> calculateInterval cfg s \<and> calculateInterval cfg s \<le> FetchIntervalMax cfg"
proof -
  let ?n = "max (consecutiveEmpty s) (consecutiveErrors s)"
  let ?m = "(2 :: int) ^ nat (min (?n - 1) 5)"
  have m: "FetchInterval cfg \<le> FetchInterval cfg * ?m"
    using mult_left_mono [of 1 ?m "FetchInterval cfg"] assms(1) by simp
  have e: "calculateInterval cfg s = min (FetchInterval cfg * ?m) (FetchIntervalMax cfg)"
  proof (cases "?n \<le> 1")
    case True
    then have "?m = 1" by simp
    then show ?thesis using True assms(3) by (simp add: calculateInterval_short)
  next
    case False
    have "i64 (FetchInterval cfg * ?m) = FetchInterval cfg * ?m"
      using False assms(1,2) by (intro interval_exact) auto
    with False show ?thesis unfolding calculateInterval_def Let_def by (simp only: if_False)
  qed
  show ?thesis unfolding e using m assms(3) by auto
qed

theorem backoff_interval_witness:
  "calculateInterval demo_cfg \<lparr>consecutiveEmpty = 2, consecutiveErrors = 0, lastBackoff = 0\<rparr> = 4000"
  using backoff_interval [of demo_cfg "\<lparr>consecutiveEmpty = 2, consecutiveErrors = 0, lastBackoff = 0\<rparr>"]
  by (simp add: demo_cfg_def)

text \<open>
  The jitter moves a wait by at most a fifth of it, whatever number the generator answers.
\<close>

theorem jitter_within_fifth:
  assumes "0 \<le> d" and "d * 2 < 2 ^ 63"
  shows "4 * d \<le> 5 * addJitter r d \<and> 5 * addJitter r d \<le> 6 * d"
proof -
  let ?j = "d * 2 div 5"
  have i: "i64 (d * 2) = d * 2" using assms by (intro i64_id) (simp add: in_i64_def)
  show ?thesis
  proof (cases "d = 0 \<or> ?j \<le> 0")
    case True
    then show ?thesis using assms(1) i by (auto simp: addJitter_def Let_def)
  next
    case False
    let ?v = "r mod ?j - ?j div 2"
    have v: "- (?j div 2) \<le> ?v" "?v < ?j - ?j div 2" using False by simp_all
    have "in_i64 (d + ?v)" unfolding in_i64_def using v assms by linarith
    then have "addJitter r d = d + ?v" using False assms(1) i by (simp add: addJitter_def Let_def i64_id)
    then show ?thesis using v by linarith
  qed
qed

theorem jitter_within_fifth_witness:
  "4 * 1000 \<le> 5 * addJitter 399 1000 \<and> 5 * addJitter 399 1000 \<le> 6 * (1000 :: int)"
  by (rule jitter_within_fifth) simp_all

text \<open>
  The version sent with the next request never falls behind by an answer without a task, and an
  answer with a task whose version is at least the one sent resets it, so the next request queries
  the database.
\<close>

theorem fetch_tasks_version:
  assumes "fetchTask now (FetchMsg version task) s p = (t, s', p')" and "tasksVersion p \<le> version"
  shows "t = task \<and> tasksVersion p' = (if task = None then version else 0) \<and>
    consecutiveErrors s' = 0 \<and> \<not> lastPollFailed p'"
  using assms by (auto simp: fetchTask_def CompareAndSwap_def markHealthyPoll_def Let_def split: option.splits if_splits)

theorem fetch_tasks_version_witness:
  "tasksVersion (snd (snd (fetchTask 5 (FetchMsg 3 (Some (9 :: nat))) new_worker (New 0)))) = 0"
proof -
  obtain t s' p' where f: "fetchTask 5 (FetchMsg 3 (Some (9 :: nat))) new_worker (New 0) = (t, s', p')"
    by (cases "fetchTask 5 (FetchMsg 3 (Some (9 :: nat))) new_worker (New 0)")
  show ?thesis using fetch_tasks_version [OF f] f by (simp add: New_def)
qed

end
