(* ===== verification/Reporter.thy ===== *)
theory Reporter
  imports Masker
begin

text \<open>
  The reporter of a task, \<^verbatim>\<open>internal/pkg/report/reporter.go\<close>: the hook that turns log entries into
  log rows and the state of the steps, the workflow commands it acts on, and the reports of log and
  state to the server. The server's answers, the clock and the retries of the final flush (a library)
  are arguments; the process's own log and the metrics are left out.
\<close>

section \<open>State\<close>

datatype result_t = UNSPECIFIED | SUCCESS | FAILURE | CANCELLED | SKIPPED

record log_row =
  row_time :: int
  row_content :: string

record step_state =
  step_id :: int
  LogIndex :: int
  LogLength :: int
  step_result :: result_t
  step_started :: "int option"
  step_stopped :: "int option"

record task_state =
  task_id :: int
  task_result :: result_t
  task_started :: "int option"
  task_stopped :: "int option"
  Steps :: "step_state list"

record jobOutput =
  out_value :: string
  out_sent :: bool

record reporter =
  ctx_err :: "go_error option"
  closed :: bool
  logOffset :: int
  logRows :: "log_row list"
  rep_oldnew :: "(string \<times> string) list"
  state :: task_state
  stateChanged :: bool
  outputs :: "jobOutput dict"
  lastReportedAt :: int
  stateReportInterval :: int
  closeTimeout :: int
  logNotify :: bool
  stateNotify :: bool
  debugOutputEnabled :: bool
  stopCommandEndToken :: string
  logLevel :: nat

text \<open>The masks a reporter starts with: extra masks, the two tokens when they are set, the secrets.\<close>

definition NewReporter_masks :: "string list \<Rightarrow> string \<Rightarrow> string \<Rightarrow> string list \<Rightarrow> (string \<times> string) list" where
  "NewReporter_masks extraMasks token runtime_token secrets =
     (let oldnew = fold (\<lambda>v m. AppendSecretMasker m v) extraMasks [];
          oldnew = (if token \<noteq> [] then AppendSecretMasker oldnew token else oldnew);
          oldnew = (if runtime_token \<noteq> [] then AppendSecretMasker oldnew runtime_token else oldnew)
      in fold (\<lambda>v m. AppendSecretMasker m v) secrets oldnew)"

definition NewReporter ::
  "int \<Rightarrow> nat \<Rightarrow> int \<Rightarrow> int \<Rightarrow> string list \<Rightarrow> string \<Rightarrow> string \<Rightarrow> env \<Rightarrow> reporter" where
  "NewReporter task level interval timeout extraMasks token runtime_token secrets =
     \<lparr>ctx_err = None, closed = False, logOffset = 0, logRows = [],
      rep_oldnew = NewReporter_masks extraMasks token runtime_token (List.map snd secrets),
      state = \<lparr>task_id = task, task_result = UNSPECIFIED, task_started = None, task_stopped = None, Steps = []\<rparr>,
      stateChanged = False, outputs = [], lastReportedAt = 0, stateReportInterval = interval,
      closeTimeout = timeout, logNotify = False, stateNotify = False,
      debugOutputEnabled = (dict_get secrets ''ACTIONS_STEP_DEBUG'' = ''true''),
      stopCommandEndToken = [], logLevel = level\<rparr>"

definition ResetSteps :: "nat \<Rightarrow> reporter \<Rightarrow> reporter" where
  "ResetSteps l r = r\<lparr>state := (state r)\<lparr>Steps := Steps (state r) @
     List.map (\<lambda>i. \<lparr>step_id = int i, LogIndex = 0, LogLength = 0, step_result = UNSPECIFIED,
                 step_started = None, step_stopped = None\<rparr>) [0..<l]\<rparr>\<rparr>"

section \<open>Commands\<close>

text \<open>The groups of the pattern: the command, the properties with their leading blank, the value.\<close>

definition cmdRegex :: re where
  "cmdRegex = seq_all
     [lit CHR '':'', lit CHR '':'', Grp 1 (Rep 1 (\<lambda>c. c \<noteq> CHR '' '' \<and> c \<noteq> CHR '':'')),
      Opt (Grp 2 (Seq (lit CHR '' '') (Rep 0 (\<lambda>c. c \<noteq> CHR '':'')))), lit CHR '':'', lit CHR '':'',
      Grp 3 (Rep 0 (\<lambda>c. c \<noteq> CHR 0x0A))]"

fun parse_property_pairs :: "string list \<Rightarrow> env \<Rightarrow> env" where
  "parse_property_pairs [] props = props"
| "parse_property_pairs (pair # ps) props =
     (case str_cut pair ''='' of (key, value, ok) \<Rightarrow>
        if \<not> ok then parse_property_pairs ps props
        else (let value = ReplaceAll (ReplaceAll value ''%3A'' '':'') ''%2C'' '',''
              in parse_property_pairs ps (dict_put (to_lower (trim_space key)) value props)))"

definition parseCommandProperties :: "string \<Rightarrow> env" where
  "parseCommandProperties properties =
     (let properties = trim_space properties
      in if properties = [] then []
         else (let props = parse_property_pairs (split_at CHR '','' properties) []
               in if dict_get props ''col'' = [] then dict_put ''col'' (dict_get props ''column'') props else props))"

definition formatAnnotation :: "string \<Rightarrow> string \<Rightarrow> string \<Rightarrow> string" where
  "formatAnnotation level properties value =
     (let props = parseCommandProperties properties;
          prefix = dict_get props ''file'';
          prefix = (if prefix \<noteq> [] then
              (let prefix = (if dict_get props ''line'' \<noteq> [] then
                   (let prefix = prefix @ '':'' @ dict_get props ''line''
                    in if dict_get props ''col'' \<noteq> [] then prefix @ '':'' @ dict_get props ''col'' else prefix)
                 else prefix)
               in prefix @ '': '')
            else prefix);
          prefix = (if dict_get props ''title'' \<noteq> [] then prefix @ dict_get props ''title'' @ '': '' else prefix)
      in ''::'' @ level @ ''::'' @ prefix @ value)"

definition addMask :: "string \<Rightarrow> reporter \<Rightarrow> reporter" where
  "addMask msg r = r\<lparr>rep_oldnew := AppendSecretMasker (rep_oldnew r) msg\<rparr>"

definition handleCommand ::
  "string \<Rightarrow> string \<Rightarrow> string \<Rightarrow> string \<Rightarrow> reporter \<Rightarrow> string option \<times> reporter" where
  "handleCommand originalContent command properties value r =
     (if stopCommandEndToken r \<noteq> [] then
        (if command \<noteq> stopCommandEndToken r then (Some originalContent, r)
         else (None, r\<lparr>stopCommandEndToken := []\<rparr>))
      else if command = ''add-mask'' then (None, addMask (UnescapeCommandData value) r)
      else if command = ''debug'' then (if debugOutputEnabled r then (Some originalContent, r) else (None, r))
      else if command \<in> {''notice'', ''warning'', ''error''} then
        (Some (formatAnnotation command properties value), r)
      else if command \<in> {''group'', ''endgroup''} then (Some originalContent, r)
      else if command = ''stop-commands'' then (None, r\<lparr>stopCommandEndToken := UnescapeCommandData value\<rparr>)
      else (Some originalContent, r))"

section \<open>Log rows\<close>

text \<open>
  A log entry with the fields of its data the reporter reads, each absent when the entry does not
  have it at the type the code asks for. Step numbers are indices, never negative.
\<close>

record log_entry =
  e_message :: string
  e_time :: int
  e_level :: nat
  e_stage :: "string option"
  e_stepNumber :: "nat option"
  e_stepID :: "string list option"
  e_jobResult :: "string option"
  e_stepResult :: "string option"
  e_raw_output :: "bool option"

definition ErrorLevel :: nat where "ErrorLevel = 2"

definition newLogRow :: "int \<Rightarrow> string \<Rightarrow> reporter \<Rightarrow> log_row" where
  "newLogRow t content r = \<lparr>row_time = t, row_content = ToValidUTF8 (go_replace (rep_oldnew r) content) ''?''\<rparr>"

definition parseLogRow :: "log_entry \<Rightarrow> reporter \<Rightarrow> log_row option \<times> reporter" where
  "parseLogRow entry r =
     (let content = trim_right [CHR 0x0D, CHR 0x0A] (e_message entry)
      in case cut_prefix ''##[add-mask]'' content of
           Some arg \<Rightarrow> (None, addMask (UnescapeCommandData arg) r)
         | None \<Rightarrow>
             (case full_match cmdRegex content of
                Some c \<Rightarrow>
                  (case handleCommand content (group_of 1 c) (group_of 2 c) (group_of 3 c) r of
                     (Some content, r) \<Rightarrow> (Some (newLogRow (e_time entry) content r), r)
                   | (None, r) \<Rightarrow> (None, r))
              | None \<Rightarrow> (Some (newLogRow (e_time entry) content r), r)))"

definition duringSteps :: "reporter \<Rightarrow> bool" where
  "duringSteps r =
     (let steps = Steps (state r)
      in if steps = [] then False
         else if step_result (hd steps) = UNSPECIFIED \<and> LogLength (hd steps) = 0 then False
         else if step_result (last steps) \<noteq> UNSPECIFIED then False
         else True)"

definition shouldAppendLogRow :: "log_entry \<Rightarrow> reporter \<Rightarrow> bool" where
  "shouldAppendLogRow entry r = (\<not> duringSteps r \<and> e_level entry \<le> logLevel r)"

definition stringToResult :: "(string \<times> result_t) list" where
  "stringToResult = [(''success'', SUCCESS), (''failure'', FAILURE), (''skipped'', SKIPPED), (''cancelled'', CANCELLED)]"

definition parseResult :: "string \<Rightarrow> result_t option" where
  "parseResult str = map_of stringToResult str"

definition isJobStepEntry :: "log_entry \<Rightarrow> bool" where
  "isJobStepEntry entry = (case e_stepID entry of Some v \<Rightarrow> \<not> 1 < length v | None \<Rightarrow> True)"

definition unlockAndNotify :: "bool \<Rightarrow> reporter \<Rightarrow> reporter" where
  "unlockAndNotify urgentState r =
     (let r = r\<lparr>logNotify := True\<rparr> in if urgentState then r\<lparr>stateNotify := True\<rparr> else r)"

text \<open>\<^verbatim>\<open>appendIfNotNil(r.logRows, r.parseLogRow(entry))\<close>\<close>

definition append_parsed :: "log_entry \<Rightarrow> reporter \<Rightarrow> reporter" where
  "append_parsed entry r =
     (case parseLogRow entry r of
        (Some row, r) \<Rightarrow> r\<lparr>logRows := logRows r @ [row]\<rparr>
      | (None, r) \<Rightarrow> r)"

definition append_between :: "log_entry \<Rightarrow> reporter \<Rightarrow> reporter" where
  "append_between entry r = (if shouldAppendLogRow entry r then append_parsed entry r else r)"

section \<open>The hook\<close>

definition finish_step :: "result_t \<Rightarrow> step_state \<Rightarrow> step_state" where
  "finish_step jobResult s =
     (if step_result s = UNSPECIFIED
      then s\<lparr>step_result := (if jobResult = SKIPPED then SKIPPED else CANCELLED)\<rparr> else s)"

definition set_step :: "nat \<Rightarrow> (step_state \<Rightarrow> step_state) \<Rightarrow> reporter \<Rightarrow> reporter" where
  "set_step n f r = r\<lparr>state := (state r)\<lparr>Steps := (Steps (state r))[n := f (Steps (state r) ! n)]\<rparr>\<rparr>"

definition next_index :: "reporter \<Rightarrow> int" where
  "next_index r = logOffset r + int (length (logRows r))"

text \<open>An entry outside the main stage: it may carry the result of the job.\<close>

definition Fire_job :: "log_entry \<Rightarrow> reporter \<Rightarrow> reporter" where
  "Fire_job entry r =
     (case (case e_jobResult entry of Some v \<Rightarrow> parseResult v | None \<Rightarrow> None) of
        Some jobResult \<Rightarrow>
          unlockAndNotify True (append_between entry
            (r\<lparr>state := (state r)\<lparr>task_result := jobResult, task_stopped := Some (e_time entry),
                 Steps := List.map (finish_step jobResult) (Steps (state r))\<rparr>\<rparr>))
      | None \<Rightarrow> unlockAndNotify False (append_between entry r))"

text \<open>What an entry of a step adds to the log: its raw output, or a row between steps.\<close>

definition Fire_rows :: "log_entry \<Rightarrow> nat \<Rightarrow> reporter \<Rightarrow> reporter" where
  "Fire_rows entry n r =
     (let raw = (if e_level entry = ErrorLevel then Some True else e_raw_output entry)
      in case raw of
           Some b \<Rightarrow>
             (if b then
                (case parseLogRow entry r of
                   (Some row, r) \<Rightarrow>
                     (let r = (if LogLength (Steps (state r) ! n) = 0
                               then set_step n (\<lambda>s. s\<lparr>LogIndex := next_index r\<rparr>) r else r);
                          r = set_step n (\<lambda>s. s\<lparr>LogLength := LogLength s + 1\<rparr>) r
                      in r\<lparr>logRows := logRows r @ [row]\<rparr>)
                 | (None, r) \<Rightarrow> r)
              else r)
         | None \<Rightarrow> append_between entry r)"

definition Fire_result :: "log_entry \<Rightarrow> nat \<Rightarrow> reporter \<Rightarrow> bool \<times> reporter" where
  "Fire_result entry n r =
     (case e_stepResult entry of
        Some v \<Rightarrow>
          (if isJobStepEntry entry then
             (case parseResult v of
                Some stepResult \<Rightarrow>
                  (let r = (if LogLength (Steps (state r) ! n) = 0
                            then set_step n (\<lambda>s. s\<lparr>LogIndex := next_index r\<rparr>) r else r)
                   in (True, set_step n (\<lambda>s. s\<lparr>step_result := stepResult, step_stopped := Some (e_time entry)\<rparr>) r))
              | None \<Rightarrow> (False, r))
           else (False, r))
      | None \<Rightarrow> (False, r))"

definition Fire_step :: "log_entry \<Rightarrow> nat \<Rightarrow> reporter \<Rightarrow> reporter" where
  "Fire_step entry n r =
     (let starts = step_started (Steps (state r) ! n) = None;
          r = (if starts
               then (set_step n (\<lambda>s. s\<lparr>step_started := Some (e_time entry)\<rparr>) r)\<lparr>stopCommandEndToken := []\<rparr>
               else r);
          r = Fire_rows entry n r
      in case Fire_result entry n r of (ends, r) \<Rightarrow> unlockAndNotify (starts \<or> ends) r)"

definition Fire :: "log_entry \<Rightarrow> reporter \<Rightarrow> reporter" where
  "Fire entry r =
     (let r = r\<lparr>stateChanged := True\<rparr>;
          r = (if task_started (state r) = None
               then r\<lparr>state := (state r)\<lparr>task_started := Some (e_time entry)\<rparr>\<rparr> else r)
      in if e_stage entry \<noteq> Some ''Main'' then Fire_job entry r
         else case e_stepNumber entry of
                Some n \<Rightarrow>
                  if n < length (Steps (state r)) then Fire_step entry n r
                  else unlockAndNotify False (append_between entry r)
              | None \<Rightarrow> unlockAndNotify False (append_between entry r))"
section \<open>Outputs\<close>

definition maxOutputKeyLen :: nat where "maxOutputKeyLen = 255"
definition maxOutputValueLen :: nat where "maxOutputValueLen = 1024 * 1024"

text \<open>A line of the reporter's own, at a given time; during the steps it is dropped.\<close>

definition logf :: "int \<Rightarrow> string \<Rightarrow> reporter \<Rightarrow> reporter" where
  "logf now msg r = (if \<not> duringSteps r then r\<lparr>logRows := logRows r @ [newLogRow now msg r]\<rparr> else r)"

definition too_long :: "string \<Rightarrow> string \<Rightarrow> nat \<Rightarrow> nat \<Rightarrow> string" where
  "too_long what k l m = ''ignore output '' @ gq k @ '' because the '' @ what @ '' is too long: ''
     @ itoa (int l) @ '' > '' @ itoa (int m)"

definition set_output :: "int \<Rightarrow> string \<times> string \<Rightarrow> reporter \<Rightarrow> reporter" where
  "set_output now kv r =
     (case kv of (k, v) \<Rightarrow>
        if maxOutputKeyLen < length k then logf now (too_long ''key'' k (length k) maxOutputKeyLen) r
        else if maxOutputValueLen < length v then logf now (too_long ''value'' k (length v) maxOutputValueLen) r
        else if map_of (outputs r) k = None
        then r\<lparr>outputs := AList.update k \<lparr>out_value = v, out_sent = False\<rparr> (outputs r)\<rparr>
        else r)"

text \<open>The map of outputs is walked in some order, that of the argument.\<close>

definition SetOutputs :: "int \<Rightarrow> env \<Rightarrow> reporter \<Rightarrow> reporter" where
  "SetOutputs now outs r = fold (set_output now) outs r"

section \<open>Reporting the log\<close>

definition effectiveCloseTimeout :: "reporter \<Rightarrow> int" where
  "effectiveCloseTimeout r = (if closeTimeout r \<le> 0 then 10 * 1000000000 else closeTimeout r)"

text \<open>The context of a request: the reporter's own, or a fresh one with a timeout once that is done.\<close>

datatype rpc_ctx = OwnCtx | FreshCtx int

definition rpcCtx :: "reporter \<Rightarrow> rpc_ctx" where
  "rpcCtx r = (if ctx_err r \<noteq> None then FreshCtx (effectiveCloseTimeout r) else OwnCtx)"

text \<open>
  A report has two halves, around its request, since the state is not locked while it is under way.
  The first gives the request (index, rows, no more) or nothing when there is nothing to send. The
  second takes the answer and returns nothing where the slice would panic.
\<close>

type_synonym log_request = "int \<times> log_row list \<times> bool"
datatype log_answer = LogFailed go_error | AckIndex int

definition ReportLog_begin :: "bool \<Rightarrow> reporter \<Rightarrow> log_request option" where
  "ReportLog_begin noMore r =
     (if \<not> noMore \<and> logRows r = [] then None else Some (logOffset r, logRows r, noMore))"

definition ReportLog_end ::
  "log_request \<Rightarrow> log_answer \<Rightarrow> reporter \<Rightarrow> (go_error option \<times> reporter) option" where
  "ReportLog_end req answer r =
     (case req of (index, rows, noMore) \<Rightarrow>
        (case answer of
           LogFailed e \<Rightarrow> Some (Some e, r)
         | AckIndex ack \<Rightarrow>
             if ack < logOffset r then Some (Some (Errorf ''submitted logs are lost''), r)
             else if int (length (logRows r)) < ack - logOffset r then None
             else (let submitted = logOffset r + int (length rows);
                       r = r\<lparr>logRows := drop (nat (ack - logOffset r)) (logRows r), logOffset := ack\<rparr>
                   in if noMore \<and> ack < submitted
                      then Some (Some (Errorf ''not all logs are submitted''), r) else Some (None, r))))"

section \<open>Reporting the state\<close>

record state_request =
  rq_state :: task_state
  rq_outputs :: env

datatype state_answer = StateFailed go_error | StateOk "string list" "result_t option"

definition unsent :: "reporter \<Rightarrow> env" where
  "unsent r = List.map (\<lambda>(k, out). (k, out_value out)) (filter (\<lambda>(k, out). \<not> out_sent out) (outputs r))"

definition ReportState_begin :: "bool \<Rightarrow> int \<Rightarrow> reporter \<Rightarrow> (state_request option) \<times> reporter" where
  "ReportState_begin reportResult now r =
     (let outs = unsent r;
          last = lastReportedAt r;
          withinHeartbeatInterval = (last \<noteq> 0 \<and> now - last < stateReportInterval r)
      in if \<not> reportResult \<and> \<not> stateChanged r \<and> outs = [] \<and> withinHeartbeatInterval then (None, r)
         else (let st = state r;
                   st = (if \<not> reportResult then st\<lparr>task_result := UNSPECIFIED\<rparr> else st)
               in (Some \<lparr>rq_state = st, rq_outputs = outs\<rparr>, r\<lparr>stateChanged := False\<rparr>)))"

definition mark_sent :: "string \<Rightarrow> jobOutput dict \<Rightarrow> jobOutput dict" where
  "mark_sent k outs =
     (if map_of outs k \<noteq> None then AList.update k \<lparr>out_value = [], out_sent = True\<rparr> outs else outs)"

definition ReportState_end :: "state_answer \<Rightarrow> int \<Rightarrow> reporter \<Rightarrow> go_error option \<times> reporter" where
  "ReportState_end answer now r =
     (case answer of
        StateFailed e \<Rightarrow> (Some e, r\<lparr>stateChanged := True\<rparr>)
      | StateOk SentOutputs result \<Rightarrow>
          (let r = r\<lparr>lastReportedAt := now, outputs := fold mark_sent SentOutputs (outputs r)\<rparr>;
               noSent = List.map fst (unsent r);
               r = (if result = Some CANCELLED
                    then r\<lparr>ctx_err := (case ctx_err r of None \<Rightarrow> Some Canceled | Some e \<Rightarrow> Some e)\<rparr> else r)
           in if noSent \<noteq> []
              then (Some (Errorf (''there are still outputs that have not been sent: ['' @ join '' '' noSent @ '']'')), r)
              else (None, r)))"

section \<open>Closing\<close>

definition Close_mark :: "string \<Rightarrow> int \<Rightarrow> reporter \<Rightarrow> reporter" where
  "Close_mark lastWords now r =
     (let r = r\<lparr>closed := True\<rparr>
      in if task_result (state r) = UNSPECIFIED then
           (let cancelled = (case ctx_err r of Some e \<Rightarrow> errors_is e Canceled | None \<Rightarrow> False);
                lastWords = (if lastWords = [] then (if cancelled then ''Cancelled'' else ''Early termination'')
                             else lastWords)
            in r\<lparr>state := (state r)\<lparr>Steps := List.map (\<lambda>v. if step_result v = UNSPECIFIED
                     then v\<lparr>step_result := CANCELLED\<rparr> else v) (Steps (state r)),
                   task_result := (if cancelled then CANCELLED else FAILURE), task_stopped := Some now\<rparr>,
                 logRows := logRows r @ [\<lparr>row_time = now, row_content = lastWords\<rparr>]\<rparr>)
         else if lastWords \<noteq> [] then r\<lparr>logRows := logRows r @ [\<lparr>row_time = now, row_content = lastWords\<rparr>]\<rparr>
         else r)"

definition Close_sentinel :: "int \<Rightarrow> reporter \<Rightarrow> reporter" where
  "Close_sentinel now r =
     (if logRows r = [] then r\<lparr>logRows := [\<lparr>row_time = now, row_content = []\<rparr>]\<rparr> else r)"

definition errors_Join :: "go_error option \<Rightarrow> go_error option \<Rightarrow> go_error option" where
  "errors_Join a b =
     (case (a, b) of
        (None, e) \<Rightarrow> e
      | (e, None) \<Rightarrow> e
      | (Some x, Some y) \<Rightarrow> Some (Errorf (error_string x @ [CHR 0x0A] @ error_string y)))"

text \<open>
  \<^verbatim>\<open>Close\<close> with what the daemon does until it has exited, and the two final reports, retried by the
  library within the budget it is given.
\<close>

definition flushFinal ::
  "(int \<Rightarrow> (reporter \<Rightarrow> go_error option \<times> reporter) \<Rightarrow> reporter \<Rightarrow> go_error option \<times> reporter) \<Rightarrow>
   (reporter \<Rightarrow> go_error option \<times> reporter) \<Rightarrow> reporter \<Rightarrow> go_error option \<times> reporter" where
  "flushFinal retry fn r = retry (3 * effectiveCloseTimeout r) fn r"

definition Close ::
  "(int \<Rightarrow> (reporter \<Rightarrow> go_error option \<times> reporter) \<Rightarrow> reporter \<Rightarrow> go_error option \<times> reporter) \<Rightarrow>
   (reporter \<Rightarrow> reporter) \<Rightarrow> (reporter \<Rightarrow> go_error option \<times> reporter) \<Rightarrow> (reporter \<Rightarrow> go_error option \<times> reporter) \<Rightarrow>
   string \<Rightarrow> int \<Rightarrow> reporter \<Rightarrow> go_error option \<times> reporter" where
  "Close retry daemon report_log report_state lastWords now r =
     (let r = (Close_mark lastWords now r)\<lparr>logNotify := True\<rparr>;
          r = daemon r;
          r = Close_sentinel now r
      in case flushFinal retry report_log r of (e1, r) \<Rightarrow>
           (case flushFinal retry report_state r of (e2, r) \<Rightarrow> (errors_Join e1 e2, r)))"

section \<open>The daemon\<close>

text \<open>
  One round of the daemon's loop: what woke it, the reports it makes, whether its latency timer is
  armed behind it, and whether it goes on.
\<close>

datatype wake = LogTick | StateTick | LogNotify | StateNotify | LatencyTimer | CtxDone | HeartbeatStop
datatype report = RLog | RState

definition daemon_round :: "nat \<Rightarrow> reporter \<Rightarrow> wake \<Rightarrow> bool \<Rightarrow> report list \<times> bool \<times> bool" where
  "daemon_round logBatchSize r w maxLatencyActive =
     (case w of
        LogTick \<Rightarrow> ([RLog], False, \<not> closed r)
      | StateTick \<Rightarrow> ([RState], maxLatencyActive, \<not> closed r)
      | LogNotify \<Rightarrow>
          (let n = length (logRows r)
           in if logBatchSize \<le> n then ([RLog], False, \<not> closed r)
              else if \<not> maxLatencyActive \<and> 0 < n then ([], True, \<not> closed r)
              else ([], maxLatencyActive, \<not> closed r))
      | StateNotify \<Rightarrow> ([RLog, RState], False, \<not> closed r)
      | LatencyTimer \<Rightarrow> ([RLog], False, \<not> closed r)
      | CtxDone \<Rightarrow> ([], maxLatencyActive, False)
      | HeartbeatStop \<Rightarrow> ([], maxLatencyActive, False))"

section \<open>Facts about the commands\<close>

text \<open>The lines the pattern accepts, and their parts: the value starts behind the first \<^verbatim>\<open>::\<close>.\<close>

definition cmd_line :: "string \<Rightarrow> string \<Rightarrow> string \<Rightarrow> string \<Rightarrow> bool" where
  "cmd_line s cmd ps v =
     (s = ''::'' @ cmd @ ps @ ''::'' @ v \<and> cmd \<noteq> [] \<and> CHR '' '' \<notin> set cmd \<and> CHR '':'' \<notin> set cmd \<and>
      CHR '':'' \<notin> set ps \<and> (ps = [] \<or> hd ps = CHR '' '') \<and> CHR 0x0A \<notin> set v)"

lemma takeWhile_eqI: "(\<And>x. x \<in> set a \<Longrightarrow> P x) \<Longrightarrow> b = [] \<or> \<not> P (hd b) \<Longrightarrow> takeWhile P (a @ b) = a"
  by (cases b) auto

lemma cmd_line_unique:
  assumes "cmd_line s cmd ps v" and "cmd_line s cmd' ps' v'"
  shows "cmd = cmd' \<and> ps = ps' \<and> v = v'"
proof -
  have parts: "cmd = takeWhile (\<lambda>c. c \<noteq> CHR '' '') (takeWhile (\<lambda>c. c \<noteq> CHR '':'') (drop 2 s)) \<and>
      cmd @ ps = takeWhile (\<lambda>c. c \<noteq> CHR '':'') (drop 2 s) \<and> v = drop (4 + length (cmd @ ps)) s"
    if "cmd_line s cmd ps v" for cmd ps v
  proof -
    have t: "takeWhile (\<lambda>c. c \<noteq> CHR '':'') ((cmd @ ps) @ ''::'' @ v) = cmd @ ps"
      using that by (intro takeWhile_eqI) (auto simp: cmd_line_def)
    moreover have "takeWhile (\<lambda>c. c \<noteq> CHR '' '') (cmd @ ps) = cmd"
      using that by (intro takeWhile_eqI) (auto simp: cmd_line_def)
    moreover have "drop (length x) (x @ v) = v" for x by simp
    moreover have "s = (''::'' @ cmd @ ps @ ''::'') @ v" using that by (simp add: cmd_line_def)
    moreover have "length (''::'' @ cmd @ ps @ ''::'') = 4 + length (cmd @ ps)" by simp
    moreover have "drop 2 s = (cmd @ ps) @ ''::'' @ v" using that by (simp add: cmd_line_def)
    ultimately show ?thesis by metis
  qed
  from parts [OF assms(1)] parts [OF assms(2)] show ?thesis by (metis same_append_eq)
qed

lemma rep_all: "(n, c) \<in> set (rmatch (Rep k p) s) \<Longrightarrow> c = [] \<and> k \<le> n \<and> list_all p (take n s)"
  using take_takeWhile_all [of n p s] by (auto simp: rmatch_Rep list_all_iff)

lemma rep_here: "list_all p a \<Longrightarrow> k \<le> length a \<Longrightarrow> (length a, []) \<in> set (rmatch (Rep k p) (a @ b))"
  by (auto simp: rmatch_Rep list_all_iff takeWhile_append)

lemma cmdRegex_sound:
  assumes "accepts cmdRegex s c"
  shows "cmd_line s (group_of 1 c) (group_of 2 c) (group_of 3 c)"
proof -
  let ?name = "Rep 1 (\<lambda>c. c \<noteq> CHR '' '' \<and> c \<noteq> CHR '':'')" and ?pr = "Rep 0 (\<lambda>c. c \<noteq> CHR '':'')"
    and ?any = "Rep 0 (\<lambda>c. c \<noteq> CHR 0x0A)"
  from assms obtain s1 n c1 k c2 v c3 where
    s: "s = ''::'' @ s1" and
    n: "(n, c1) \<in> set (rmatch (Grp 1 ?name) s1)" and
    k: "(k, c2) \<in> set (rmatch (Opt (Grp 2 (Seq (lit CHR '' '') ?pr))) (drop n s1))" and
    v: "drop k (drop n s1) = ''::'' @ v" and c3: "accepts (Grp 3 ?any) v c3" and
    c: "c = c1 @ c2 @ c3"
    unfolding cmdRegex_def seq_all.simps accepts_lit
    by (subst (asm) accepts_Seq, subst (asm) accepts_Seq) (force simp: accepts_lit)
  from n have 1: "c1 = [(1, take n s1)]" "1 \<le> n"
    "list_all (\<lambda>c. c \<noteq> CHR '' '' \<and> c \<noteq> CHR '':'') (take n s1)"
    by (auto simp: rmatch_Grp dest: rep_all)
  let ?cmd = "take n s1" and ?ps = "take k (drop n s1)"
  obtain u where u: "drop n s1 = u" by blast
  have 2: "(k = 0 \<and> c2 = []) \<or> (c2 = [(2, ?ps)] \<and> hd ?ps = CHR '' '' \<and> CHR '':'' \<notin> set ?ps)"
  proof (cases "k = 0 \<and> c2 = []")
    case False
    with k obtain m t where "u = CHR '' '' # t" "k = Suc m" "c2 = [(2, take k u)]"
      "(m, []) \<in> set (rmatch ?pr t)"
      unfolding u by (auto simp: rmatch_Opt rmatch_Grp rmatch_Seq rmatch_lit rmatch_Rep)
    with rep_all [OF this(4)] show ?thesis unfolding u by (auto simp: list_all_iff)
  qed simp
  from c3 obtain c' where c': "(length v, c') \<in> set (rmatch ?any v)" "c3 = (3, v) # c'"
    by (auto simp: accepts_def rmatch_Grp)
  with rep_all [OF c'(1)] have 3: "c3 = [(3, v)]" "CHR 0x0A \<notin> set v"
    by (auto simp: list_all_iff)
  have g: "group_of 1 c = ?cmd" "group_of 2 c = ?ps" "group_of 3 c = v"
    using 1(1) 2 3(1) c by (auto simp: group_of_def)
  have "s1 = ?cmd @ ?ps @ ''::'' @ v" by (metis append_take_drop_id v)
  then have "s = ''::'' @ ?cmd @ ?ps @ ''::'' @ v" using s by metis
  moreover from v have "s1 \<noteq> []" by auto
  then have "?cmd \<noteq> []" using 1(2) by simp
  moreover have "CHR '' '' \<notin> set ?cmd" "CHR '':'' \<notin> set ?cmd" using 1(3) by (auto simp: list_all_iff)
  moreover have "CHR '':'' \<notin> set ?ps" "?ps = [] \<or> hd ?ps = CHR '' ''" using 2 by auto
  ultimately show ?thesis unfolding g cmd_line_def using 3(2) by blast
qed

lemma cmdRegex_complete: "cmd_line s cmd ps v \<Longrightarrow> \<exists>c. accepts cmdRegex s c"
proof -
  let ?name = "Rep 1 (\<lambda>c. c \<noteq> CHR '' '' \<and> c \<noteq> CHR '':'')" and ?pr = "Rep 0 (\<lambda>c. c \<noteq> CHR '':'')"
    and ?any = "Rep 0 (\<lambda>c. c \<noteq> CHR 0x0A)"
  assume l: "cmd_line s cmd ps v"
  have n: "(length cmd, [(1, cmd)]) \<in> set (rmatch (Grp 1 ?name) (cmd @ ps @ ''::'' @ v))"
    unfolding rmatch_Grp
    by (intro exI [of _ "[]"] conjI rep_here) (use l in \<open>auto simp: cmd_line_def list_all_iff Suc_le_eq\<close>)
  have p: "\<exists>c2. (length ps, c2) \<in> set (rmatch (Opt (Grp 2 (Seq (lit CHR '' '') ?pr))) (ps @ ''::'' @ v))"
  proof (cases ps)
    case (Cons d ps')
    with l have d: "d = CHR '' ''" "list_all (\<lambda>c. c \<noteq> CHR '':'') ps'" by (auto simp: cmd_line_def list_all_iff)
    from rep_here [OF d(2), of 0 "''::'' @ v"] have "(length ps', []) \<in> set (rmatch ?pr (ps' @ ''::'' @ v))"
      by simp
    then show ?thesis using Cons d(1)
      by (auto simp: rmatch_Opt rmatch_Grp rmatch_Seq rmatch_lit intro!: exI)
  qed (auto simp: rmatch_Opt)
  then obtain c2 where p: "(length ps, c2) \<in> set (rmatch (Opt (Grp 2 (Seq (lit CHR '' '') ?pr))) (ps @ ''::'' @ v))"
    by blast
  have "(length v, []) \<in> set (rmatch ?any (v @ []))"
    using l by (intro rep_here) (auto simp: cmd_line_def list_all_iff)
  then have v: "accepts (Grp 3 ?any) v [(3, v)]" by (simp add: accepts_def rmatch_Grp)
  have "accepts (Seq (lit CHR '':'') (Seq (lit CHR '':'') (Grp 3 ?any))) (''::'' @ v) [(3, v)]"
    using v by (simp add: accepts_lit)
  then have "accepts (Seq (Opt (Grp 2 (Seq (lit CHR '' '') ?pr))) (Seq (lit CHR '':'') (Seq (lit CHR '':'') (Grp 3 ?any))))
      (ps @ ''::'' @ v) (c2 @ [(3, v)])"
    using p unfolding accepts_Seq [of "Opt _"] by (intro exI conjI) (assumption | simp)+
  then have "accepts (Seq (Grp 1 ?name) (Seq (Opt (Grp 2 (Seq (lit CHR '' '') ?pr))) (Seq (lit CHR '':'') (Seq (lit CHR '':'') (Grp 3 ?any)))))
      (cmd @ ps @ ''::'' @ v) ([(1, cmd)] @ c2 @ [(3, v)])"
    using n unfolding accepts_Seq [of "Grp 1 _"] by (intro exI conjI) (assumption | simp)+
  then show ?thesis using l unfolding cmdRegex_def seq_all.simps accepts_lit cmd_line_def by auto
qed

lemma cmdRegex_match:
  "(\<exists>c. full_match cmdRegex s = Some c \<and> group_of 1 c = cmd \<and> group_of 2 c = ps \<and> group_of 3 c = v) \<longleftrightarrow>
     cmd_line s cmd ps v"
proof
  assume "\<exists>c. full_match cmdRegex s = Some c \<and> group_of 1 c = cmd \<and> group_of 2 c = ps \<and> group_of 3 c = v"
  then show "cmd_line s cmd ps v" using cmdRegex_sound full_match_accepts by blast
next
  assume l: "cmd_line s cmd ps v"
  from cmdRegex_complete [OF l] obtain c0 where "(length s, c0) \<in> set (rmatch cmdRegex s)"
    unfolding accepts_def by blast
  then have "find (\<lambda>(n, c). n = length s) (rmatch cmdRegex s) \<noteq> None"
    by (auto simp: find_None_iff)
  then obtain c where c: "full_match cmdRegex s = Some c" by (auto simp: full_match_def)
  from cmd_line_unique [OF l cmdRegex_sound [OF full_match_accepts [OF c]]] c
  show "\<exists>c. full_match cmdRegex s = Some c \<and> group_of 1 c = cmd \<and> group_of 2 c = ps \<and> group_of 3 c = v" by auto
qed

lemma parseLogRow_command:
  assumes "cmd_line (trim_right [CHR 0x0D, CHR 0x0A] (e_message e)) cmd ps v"
  shows "parseLogRow e r =
    (case handleCommand (trim_right [CHR 0x0D, CHR 0x0A] (e_message e)) cmd ps v r of
       (Some content, r) \<Rightarrow> (Some (newLogRow (e_time e) content r), r)
     | (None, r) \<Rightarrow> (None, r))"
proof -
  let ?c = "trim_right [CHR 0x0D, CHR 0x0A] (e_message e)"
  have "cut_prefix ''##[add-mask]'' ?c = None"
    using assms by (auto simp: cmd_line_def cut_prefix_def)
  moreover obtain c where "full_match cmdRegex ?c = Some c" "group_of 1 c = cmd" "group_of 2 c = ps" "group_of 3 c = v"
    using assms cmdRegex_match by blast
  ultimately show ?thesis by (simp add: parseLogRow_def)
qed

section \<open>Every operation but a report appends to the log\<close>

definition appends :: "reporter \<Rightarrow> reporter \<Rightarrow> bool" where
  "appends r r' = (logOffset r' = logOffset r \<and> (\<exists>xs. logRows r' = logRows r @ xs))"

named_theorems appends_rules

lemma appends_refl [simp, appends_rules]: "appends r r"
  by (simp add: appends_def)

lemma appends_trans: "appends a b \<Longrightarrow> appends b c \<Longrightarrow> appends a c"
  by (auto simp: appends_def)

lemma appends_frame [appends_rules]:
  "logOffset r' = logOffset r \<Longrightarrow> logRows r' = logRows r \<Longrightarrow> appends r r'"
  by (simp add: appends_def)

lemma appends_snoc [appends_rules]:
  "appends r r' \<Longrightarrow> appends r (r'\<lparr>logRows := logRows r' @ xs\<rparr>)"
  by (auto simp: appends_def)

lemma handleCommand_frame:
  "handleCommand c cmd ps v r = (out, r') \<Longrightarrow> logOffset r' = logOffset r \<and> logRows r' = logRows r \<and> state r' = state r"
  by (auto simp: handleCommand_def addMask_def split: if_splits)

lemma parseLogRow_frame:
  "parseLogRow e r = (out, r') \<Longrightarrow> logOffset r' = logOffset r \<and> logRows r' = logRows r \<and> state r' = state r"
  unfolding parseLogRow_def Let_def
  by (auto simp: addMask_def split: option.splits prod.splits dest!: handleCommand_frame)

lemma appends_append_parsed [appends_rules]: "appends r (append_parsed e r)"
  by (auto simp: append_parsed_def appends_def split: option.splits prod.splits dest: parseLogRow_frame)

lemma appends_append_between [appends_rules]: "appends r (append_between e r)"
  by (auto simp: append_between_def intro: appends_rules)

lemma appends_unlock [appends_rules]: "appends r r' \<Longrightarrow> appends r (unlockAndNotify u r')"
  by (auto simp: unlockAndNotify_def appends_def Let_def)

lemma set_step_frame [simp]:
  "logRows (set_step n f r) = logRows r" "logOffset (set_step n f r) = logOffset r"
  "length (Steps (state (set_step n f r))) = length (Steps (state r))"
  "task_result (state (set_step n f r)) = task_result (state r)"
  by (simp_all add: set_step_def)

lemma appends_Fire_rows: "appends r (Fire_rows e n r)"
proof -
  have "appends r (case parseLogRow e r of
      (Some row, r) \<Rightarrow>
        (let r = (if LogLength (Steps (state r) ! n) = 0 then set_step n (\<lambda>s. s\<lparr>LogIndex := next_index r\<rparr>) r else r);
             r = set_step n (\<lambda>s. s\<lparr>LogLength := LogLength s + 1\<rparr>) r
         in r\<lparr>logRows := logRows r @ [row]\<rparr>)
    | (None, r) \<Rightarrow> r)"
  proof (cases "parseLogRow e r")
    case (Pair out r')
    from parseLogRow_frame [OF Pair] Pair show ?thesis
      by (cases out) (auto simp: appends_def Let_def)
  qed
  then show ?thesis by (auto simp: Fire_rows_def Let_def intro: appends_rules split: option.splits)
qed

lemma appends_Fire_result: "Fire_result e n r = (u, r') \<Longrightarrow> appends r r'"
  by (auto simp: Fire_result_def Let_def appends_def split: option.splits if_splits)

lemma appends_Fire_step: "appends r (Fire_step e n r)"
proof -
  let ?r1 = "if step_started (Steps (state r) ! n) = None
     then (set_step n (\<lambda>s. s\<lparr>step_started := Some (e_time e)\<rparr>) r)\<lparr>stopCommandEndToken := []\<rparr> else r"
  have 1: "appends r ?r1" by (simp add: appends_def)
  obtain u r3 where 3: "Fire_result e n (Fire_rows e n ?r1) = (u, r3)" by (cases "Fire_result e n (Fire_rows e n ?r1)")
  have "appends r r3"
    using appends_trans [OF appends_trans [OF 1 appends_Fire_rows] appends_Fire_result [OF 3]] .
  then show ?thesis unfolding Fire_step_def Let_def 3 by (auto intro: appends_unlock)
qed

lemma appends_Fire_job: "appends r (Fire_job e r)"
proof -
  have "appends r (append_between e (r\<lparr>state := s\<rparr>))" for s
    using appends_append_between [of "r\<lparr>state := s\<rparr>" e] by (simp add: appends_def)
  then show ?thesis
    by (auto simp: Fire_job_def intro!: appends_unlock appends_append_between split: option.split)
qed

lemma appends_Fire: "appends r (Fire e r)"
proof -
  let ?r0 = "r\<lparr>stateChanged := True\<rparr>"
  let ?r1 = "if task_started (state ?r0) = None
     then ?r0\<lparr>state := (state ?r0)\<lparr>task_started := Some (e_time e)\<rparr>\<rparr> else ?r0"
  have 1: "appends r ?r1" by (simp add: appends_def)
  have "appends ?r1 (if e_stage e \<noteq> Some ''Main'' then Fire_job e ?r1
         else case e_stepNumber e of
                Some n \<Rightarrow>
                  if n < length (Steps (state ?r1)) then Fire_step e n ?r1
                  else unlockAndNotify False (append_between e ?r1)
              | None \<Rightarrow> unlockAndNotify False (append_between e ?r1))"
    by (auto intro!: appends_Fire_job appends_Fire_step appends_unlock appends_append_between split: option.split)
  from appends_trans [OF 1 this] show ?thesis unfolding Fire_def Let_def .
qed

lemma appends_logf: "appends r (logf now m r)"
  by (simp add: logf_def appends_def)

lemma appends_set_output: "appends r (set_output now kv r)"
  using appends_logf by (cases kv) (auto simp: set_output_def appends_def)

lemma appends_SetOutputs: "appends r (SetOutputs now outs r)"
proof -
  have "appends r (fold (set_output now) outs r)"
  proof (induction outs arbitrary: r)
    case (Cons kv outs)
    show ?case using appends_trans [OF appends_set_output Cons.IH] by simp
  qed simp
  then show ?thesis by (simp add: SetOutputs_def)
qed

lemma appends_Close_mark: "appends r (Close_mark w now r)"
  by (auto simp: Close_mark_def Let_def appends_def)

lemma appends_Close_sentinel: "appends r (Close_sentinel now r)"
  by (simp add: Close_sentinel_def appends_def)

lemma appends_ReportState_begin: "appends r (snd (ReportState_begin b now r))"
  by (simp add: ReportState_begin_def Let_def appends_def)

lemma appends_ReportState_end: "appends r (snd (ReportState_end a now r))"
  by (simp add: ReportState_end_def Let_def appends_def split: state_answer.split)

section \<open>Delivering the log\<close>

text \<open>
  The reporter beside the server: every row appended so far, the report of the log that is under
  way (the client lock admits one), and the rows the server has stored. What the server does is the
  documented contract of \<^verbatim>\<open>UpdateLog\<close>: it stores rows of the request at their index, behind what
  it has and perhaps not all of them, and acknowledges no more than it has stored; an answer may be
  lost after rows were stored.
\<close>

datatype rep_op =
    OFire log_entry
  | OLogf int string
  | OSetOutputs int env
  | OResetSteps nat
  | OCloseMark string int
  | OCloseSentinel int
  | OStateBegin bool int
  | OStateEnd state_answer int

fun apply_op :: "rep_op \<Rightarrow> reporter \<Rightarrow> reporter" where
  "apply_op (OFire e) r = Fire e r"
| "apply_op (OLogf now m) r = logf now m r"
| "apply_op (OSetOutputs now outs) r = SetOutputs now outs r"
| "apply_op (OResetSteps l) r = ResetSteps l r"
| "apply_op (OCloseMark w now) r = Close_mark w now r"
| "apply_op (OCloseSentinel now) r = Close_sentinel now r"
| "apply_op (OStateBegin b now) r = snd (ReportState_begin b now r)"
| "apply_op (OStateEnd a now) r = snd (ReportState_end a now r)"

lemma appends_apply_op: "appends r (apply_op op r)"
  by (cases op)
    (simp_all add: appends_Fire appends_logf appends_SetOutputs appends_Close_mark appends_Close_sentinel
      appends_ReportState_begin appends_ReportState_end, simp add: ResetSteps_def appends_def)

record rep_sys =
  rep :: reporter
  produced :: "log_row list"
  log_req :: "log_request option"
  stored :: "log_row list"

definition server_store :: "int \<Rightarrow> log_row list \<Rightarrow> log_row list \<Rightarrow> log_row list" where
  "server_store index rows st =
     (if 0 \<le> index \<and> nat index \<le> length st then st @ drop (length st - nat index) rows else st)"

inductive rep_step :: "rep_sys \<Rightarrow> rep_sys \<Rightarrow> bool" where
  op: "rep_step s (s\<lparr>rep := apply_op op (rep s),
         produced := produced s @ drop (length (logRows (rep s))) (logRows (apply_op op (rep s)))\<rparr>)"
| log_begin: "log_req s = None \<Longrightarrow> ReportLog_begin noMore (rep s) = Some req \<Longrightarrow>
    rep_step s (s\<lparr>log_req := Some req\<rparr>)"
| server: "log_req s = Some (index, rows, noMore) \<Longrightarrow>
    rep_step s (s\<lparr>stored := server_store index (take n rows) (stored s)\<rparr>)"
| log_acked: "log_req s = Some req \<Longrightarrow> ack \<le> int (length (stored s)) \<Longrightarrow>
    ReportLog_end req (AckIndex ack) (rep s) = Some (err, r') \<Longrightarrow> rep_step s (s\<lparr>log_req := None, rep := r'\<rparr>)"
| log_failed: "log_req s = Some req \<Longrightarrow>
    ReportLog_end req (LogFailed e) (rep s) = Some (err, r') \<Longrightarrow> rep_step s (s\<lparr>log_req := None, rep := r'\<rparr>)"

definition rep_init :: "reporter \<Rightarrow> rep_sys" where
  "rep_init r = \<lparr>rep = r, produced = [], log_req = None, stored = []\<rparr>"

text \<open>Reachable from a new reporter, which has no rows and starts at offset zero.\<close>

definition rep_reach :: "rep_sys \<Rightarrow> bool" where
  "rep_reach s = (\<exists>r. logRows r = [] \<and> logOffset r = 0 \<and> rep_step\<^sup>*\<^sup>* (rep_init r) s)"

definition rep_inv :: "rep_sys \<Rightarrow> bool" where
  "rep_inv s =
     (stored s = take (length (stored s)) (produced s) \<and> 0 \<le> logOffset (rep s) \<and>
      nat (logOffset (rep s)) \<le> length (stored s) \<and> length (stored s) \<le> length (produced s) \<and>
      logRows (rep s) = drop (nat (logOffset (rep s))) (produced s) \<and>
      (case log_req s of None \<Rightarrow> True
       | Some (index, rows, noMore) \<Rightarrow>
           index = logOffset (rep s) \<and> length rows \<le> length (logRows (rep s)) \<and>
           rows = take (length rows) (logRows (rep s))))"

lemma rep_inv_op:
  assumes "rep_inv s" and "appends (rep s) r'"
  shows "rep_inv (s\<lparr>rep := r', produced := produced s @ drop (length (logRows (rep s))) (logRows r')\<rparr>)"
proof -
  obtain xs where xs: "logRows r' = logRows (rep s) @ xs" "logOffset r' = logOffset (rep s)"
    using assms(2) by (auto simp: appends_def)
  from assms(1) have "nat (logOffset (rep s)) \<le> length (produced s)" by (auto simp: rep_inv_def)
  with assms(1) xs show ?thesis
    by (auto simp: rep_inv_def split: option.splits)
qed

lemma rep_inv_server:
  assumes "rep_inv s" and "log_req s = Some (index, rows, noMore)"
  shows "rep_inv (s\<lparr>stored := server_store index (take n rows) (stored s)\<rparr>)"
proof -
  let ?k = "nat index" and ?m = "length (stored s)"
  from assms have i: "index = logOffset (rep s)" "0 \<le> index" "?k \<le> ?m" "?m \<le> length (produced s)"
    and st: "stored s = take ?m (produced s)" and rows: "rows = take (length rows) (drop ?k (produced s))"
    and lr: "length rows \<le> length (produced s) - ?k"
    by (auto simp: rep_inv_def)
  obtain j where j: "take n rows = take j (drop ?k (produced s))"
    using rows by (metis take_take)
  have "server_store index (take n rows) (stored s) = take ?m (produced s) @ take (j - (?m - ?k)) (drop ?m (produced s))"
    using i st by (simp add: server_store_def j drop_take)
  also have "\<dots> = take (?m + (j - (?m - ?k))) (produced s)"
    by (simp add: take_add)
  finally have e: "server_store index (take n rows) (stored s) = take (?m + (j - (?m - ?k))) (produced s)" .
  show ?thesis
    using assms i unfolding rep_inv_def e by (auto simp: min_def)
qed

lemma rep_inv_ack:
  assumes "rep_inv s" and "log_req s = Some req" and "ack \<le> int (length (stored s))"
  shows "\<exists>err r'. ReportLog_end req (AckIndex ack) (rep s) = Some (err, r') \<and>
    rep_inv (s\<lparr>log_req := None, rep := r'\<rparr>)"
proof -
  obtain index rows noMore where req: "req = (index, rows, noMore)" by (cases req)
  show ?thesis
  proof (cases "ack < logOffset (rep s)")
    case True
    with assms req show ?thesis by (auto simp: ReportLog_end_def rep_inv_def)
  next
    case False
    from assms have l: "length (logRows (rep s)) = length (produced s) - nat (logOffset (rep s))"
      and b: "0 \<le> logOffset (rep s)" "nat (logOffset (rep s)) \<le> length (produced s)"
        "length (stored s) \<le> length (produced s)"
      by (auto simp: rep_inv_def)
    have no_panic: "\<not> int (length (logRows (rep s))) < ack - logOffset (rep s)"
      using l b assms(3) by linarith
    have n: "nat (ack - logOffset (rep s)) + nat (logOffset (rep s)) = nat ack"
      using False b by linarith
    have "drop (nat (ack - logOffset (rep s))) (logRows (rep s)) = drop (nat ack) (produced s)"
      using assms(1) n by (simp add: rep_inv_def add.commute)
    then show ?thesis
      using assms False no_panic req b
      by (auto simp: ReportLog_end_def rep_inv_def Let_def)
  qed
qed

lemma rep_inv_step: "rep_step s s' \<Longrightarrow> rep_inv s \<Longrightarrow> rep_inv s'"
proof (induction rule: rep_step.induct)
  case (op s op)
  show ?case by (rule rep_inv_op [OF op appends_apply_op])
next
  case (log_begin s noMore req)
  then show ?case by (auto simp: rep_inv_def ReportLog_begin_def split: if_splits)
next
  case (server s index rows noMore n)
  show ?case by (rule rep_inv_server [OF server(2,1)])
next
  case (log_acked s req ack err r')
  from rep_inv_ack [OF log_acked(4,1,2)] log_acked(3) show ?case by auto
next
  case (log_failed s req e err r')
  then show ?case by (cases req) (auto simp: ReportLog_end_def rep_inv_def)
qed

lemma rep_inv_reach: "rep_reach s \<Longrightarrow> rep_inv s"
proof -
  assume "rep_reach s"
  then obtain r where r: "logRows r = []" "logOffset r = 0" and st: "rep_step\<^sup>*\<^sup>* (rep_init r) s"
    by (auto simp: rep_reach_def)
  have "rep_inv (rep_init r)" using r by (simp add: rep_inv_def rep_init_def)
  with st show ?thesis by (induction rule: rtranclp_induct) (auto intro: rep_inv_step)
qed

section \<open>Rows are UTF-8\<close>

lemma newLogRow_ok: "utf8_ok (row_content (newLogRow t content r))"
  by (simp add: newLogRow_def ToValidUTF8_def to_valid_utf8_ok)

lemma parseLogRow_newLogRow:
  "parseLogRow e r = (Some row, r') \<Longrightarrow> \<exists>content. row = newLogRow (e_time e) content r'"
  by (auto simp: parseLogRow_def Let_def split: option.splits prod.splits)

section \<open>Properties\<close>

text \<open>One line logged, reported, stored and acknowledged.\<close>

definition demo_rep :: reporter where
  "demo_rep = NewReporter 1 4 1000 0 [] [] [] []"

definition demo_row :: log_row where
  "demo_row = newLogRow 3 ''hi'' demo_rep"

lemma demo_step:
  "\<exists>s. rep_reach s \<and> produced s = [demo_row] \<and> stored s = [demo_row] \<and> log_req s = Some (0, [demo_row], True)
     \<and> rep s = demo_rep\<lparr>logRows := [demo_row]\<rparr>"
proof -
  let ?s0 = "rep_init demo_rep"
  have l: "logf 3 ''hi'' demo_rep = demo_rep\<lparr>logRows := [demo_row]\<rparr>"
    by (simp add: logf_def duringSteps_def demo_rep_def NewReporter_def demo_row_def)
  let ?s1 = "?s0\<lparr>rep := apply_op (OLogf 3 ''hi'') (rep ?s0),
     produced := produced ?s0 @ drop (length (logRows (rep ?s0))) (logRows (apply_op (OLogf 3 ''hi'') (rep ?s0)))\<rparr>"
  have r0: "logRows demo_rep = []" "logOffset demo_rep = 0" by (simp_all add: demo_rep_def NewReporter_def)
  have s1: "rep ?s1 = demo_rep\<lparr>logRows := [demo_row]\<rparr>" "produced ?s1 = [demo_row]" "log_req ?s1 = None" "stored ?s1 = []"
    by (simp_all add: rep_init_def l r0)
  let ?s2 = "?s1\<lparr>log_req := Some (0, [demo_row], True)\<rparr>"
  let ?s3 = "?s2\<lparr>stored := server_store 0 (take 1 [demo_row]) (stored ?s2)\<rparr>"
  have "rep_step ?s0 ?s1" by (rule op)
  moreover have "rep_step ?s1 ?s2"
    by (rule log_begin [of _ True]) (simp_all only: s1 ReportLog_begin_def, simp add: r0)
  moreover have "rep_step ?s2 ?s3" by (rule server) simp
  ultimately have run: "rep_step\<^sup>*\<^sup>* ?s0 ?s3" by (meson converse_rtranclp_into_rtranclp rtranclp.rtrancl_refl)
  have "rep_reach ?s3" unfolding rep_reach_def using r0 run by blast
  moreover have "stored ?s3 = [demo_row]" using s1 by (simp add: server_store_def)
  ultimately show ?thesis using s1 by (intro exI [of _ ?s3]) simp
qed

text \<open>
  C9: the log is delivered in order and without loss: however entries, reports, lost answers and
  partial acknowledgements interleave, the server's log is a prefix of the rows appended so far, and
  a row leaves the buffer only once it is stored.
\<close>

theorem log_delivered_in_order:
  assumes "rep_reach s"
  shows "stored s = take (length (stored s)) (produced s) \<and>
    logRows (rep s) = drop (nat (logOffset (rep s))) (produced s) \<and>
    nat (logOffset (rep s)) \<le> length (stored s)"
  using rep_inv_reach [OF assms] by (auto simp: rep_inv_def)

theorem log_delivered_in_order_witness:
  "\<exists>s :: rep_sys. stored s = [demo_row] \<and> logRows (rep s) = [demo_row] \<and> stored s = take (length (stored s)) (produced s)"
proof -
  obtain s where s: "rep_reach s" "stored s = [demo_row]" "rep s = demo_rep\<lparr>logRows := [demo_row]\<rparr>"
    using demo_step by blast
  show ?thesis using log_delivered_in_order [OF s(1)] s(2,3) by (intro exI [of _ s]) (metis reporter.select_convs(4) reporter.surjective reporter.update_convs(4))
qed



text \<open>
  The reporter reads \<^verbatim>\<open>::command properties::value\<close> at the first separator: a line is a command
  exactly when it has this form, with one way to read it; the value may contain further separators.
\<close>

theorem cmdRegex_reads_first_separator:
  "(\<exists>c. full_match cmdRegex s = Some c \<and> group_of 1 c = cmd \<and> group_of 2 c = ps \<and> group_of 3 c = v) \<longleftrightarrow>
     cmd_line s cmd ps v"
  by (rule cmdRegex_match)


definition demo_entry :: "string \<Rightarrow> log_entry" where
  "demo_entry m = \<lparr>e_message = m, e_time = 5, e_level = 4, e_stage = Some ''Post'', e_stepNumber = None,
     e_stepID = None, e_jobResult = None, e_stepResult = None, e_raw_output = None\<rparr>"


text \<open>
  Whatever bytes a step prints, the row made of them is valid UTF-8.
\<close>

theorem rows_are_utf8:
  assumes "parseLogRow e r = (Some row, r')"
  shows "utf8_ok (row_content row)"
  using parseLogRow_newLogRow [OF assms] newLogRow_ok by auto

theorem rows_are_utf8_witness:
  "\<exists>row r'. parseLogRow (demo_entry [CHR ''a'', CHR 0xFF, CHR ''b'']) demo_rep = (Some row, r') \<and>
     row_content row = ''a?b'' \<and> utf8_ok (row_content row)"
proof -
  let ?p = "parseLogRow (demo_entry [CHR ''a'', CHR 0xFF, CHR ''b'']) demo_rep"
  have c: "map_option row_content (fst ?p) = Some ''a?b''" by code_simp
  then obtain row r' where p: "?p = (Some row, r')" by (cases ?p) auto
  from rows_are_utf8 [OF p] c p show ?thesis by auto
qed

text \<open>
  The entry that carries the job's result gives the task that result and leaves no step
  without one: the steps that had none are cancelled, or skipped with a skipped job.
\<close>

theorem job_result_finishes_steps:
  assumes "e_stage e \<noteq> Some ''Main''" and "e_jobResult e = Some v" and "parseResult v = Some res"
  shows "task_result (state (Fire e r)) = res \<and>
    Steps (state (Fire e r)) = List.map (finish_step res) (Steps (state r)) \<and>
    list_all (\<lambda>s. step_result s \<noteq> UNSPECIFIED) (Steps (state (Fire e r))) \<and> stateNotify (Fire e r)"
proof (intro conjI)
  have ab: "state (append_between e q) = state q" for q
  proof (cases "parseLogRow e q")
    case (Pair out q')
    from parseLogRow_frame [OF Pair] show ?thesis
      by (cases out) (simp_all add: append_between_def append_parsed_def Pair)
  qed
  have un: "state (unlockAndNotify u q) = state q" for u q by (simp add: unlockAndNotify_def Let_def)
  let ?r1 = "if task_started (state (r\<lparr>stateChanged := True\<rparr>)) = None
     then r\<lparr>stateChanged := True\<rparr>\<lparr>state := (state (r\<lparr>stateChanged := True\<rparr>))\<lparr>task_started := Some (e_time e)\<rparr>\<rparr>
     else r\<lparr>stateChanged := True\<rparr>"
  have f: "Fire e r = Fire_job e ?r1" using assms(1) by (simp only: Fire_def Let_def not_False_eq_True if_True)
  have j: "Fire_job e q = unlockAndNotify True (append_between e
      (q\<lparr>state := (state q)\<lparr>task_result := res, task_stopped := Some (e_time e),
           Steps := List.map (finish_step res) (Steps (state q))\<rparr>\<rparr>))" for q
    by (simp add: Fire_job_def assms)
  show "task_result (state (Fire e r)) = res"
    and S: "Steps (state (Fire e r)) = List.map (finish_step res) (Steps (state r))"
    unfolding f j un ab by simp_all
  show "list_all (\<lambda>s. step_result s \<noteq> UNSPECIFIED) (Steps (state (Fire e r)))"
    unfolding S by (auto simp: list_all_iff finish_step_def)
  show "stateNotify (Fire e r)"
    unfolding f j by (simp add: unlockAndNotify_def Let_def)
qed

theorem job_result_finishes_steps_witness:
  "List.map step_result (Steps (state (Fire ((demo_entry ''done'')\<lparr>e_jobResult := Some ''success''\<rparr>) (ResetSteps 2 demo_rep)))) =
     [CANCELLED, CANCELLED]"
proof -
  let ?e = "(demo_entry ''done'')\<lparr>e_jobResult := Some ''success''\<rparr>"
  have "e_stage ?e \<noteq> Some ''Main''" "e_jobResult ?e = Some ''success''" by (simp_all add: demo_entry_def)
  moreover have "parseResult ''success'' = Some SUCCESS" by (simp add: parseResult_def stringToResult_def)
  ultimately have "Steps (state (Fire ?e (ResetSteps 2 demo_rep))) = List.map (finish_step SUCCESS) (Steps (state (ResetSteps 2 demo_rep)))"
    using job_result_finishes_steps by blast
  then show ?thesis by (simp add: ResetSteps_def demo_rep_def NewReporter_def finish_step_def upt_rec numeral_2_eq_2)
qed

text \<open>
  Closing leaves the task with a result: the one it had, or else cancelled when the server
  cancelled the task and failed otherwise, with no step left without a result.
\<close>

theorem close_sets_result:
  "task_result (state (Close_mark w now r)) =
     (if task_result (state r) \<noteq> UNSPECIFIED then task_result (state r)
      else if map_option (\<lambda>e. errors_is e Canceled) (ctx_err r) = Some True then CANCELLED else FAILURE)
   \<and> (task_result (state r) \<noteq> UNSPECIFIED \<or>
      list_all (\<lambda>s. step_result s \<noteq> UNSPECIFIED) (Steps (state (Close_mark w now r))))
   \<and> closed (Close_mark w now r) \<and> logRows (Close_sentinel now r) \<noteq> []"
  by (auto simp: Close_mark_def Close_sentinel_def Let_def list_all_iff split: option.split)

theorem close_sets_result_witness:
  "task_result (state (Close_mark [] 9 (ResetSteps 1 demo_rep))) = FAILURE"
  using close_sets_result [of "[]" 9 "ResetSteps 1 demo_rep"] by (simp add: ResetSteps_def demo_rep_def NewReporter_def)

lemma outputs_logf [simp]: "outputs (logf now m r) = outputs r"
  by (simp add: logf_def)

lemma outputs_set_output:
  "map_of (outputs (set_output now (k, v) r)) x =
     (if x = k \<and> map_of (outputs r) k = None \<and> length k \<le> maxOutputKeyLen \<and> length v \<le> maxOutputValueLen
      then Some \<lparr>out_value = v, out_sent = False\<rparr> else map_of (outputs r) x)"
  by (auto simp: set_output_def update_conv' not_less)

lemma outputs_fold:
  "distinct (List.map fst outs) \<Longrightarrow>
   map_of (outputs (fold (set_output now) outs r)) k =
     (case map_of (outputs r) k of
        Some o' \<Rightarrow> Some o'
      | None \<Rightarrow>
          (case map_of outs k of
             Some v \<Rightarrow> if length k \<le> maxOutputKeyLen \<and> length v \<le> maxOutputValueLen
                then Some \<lparr>out_value = v, out_sent = False\<rparr> else None
           | None \<Rightarrow> None))"
proof (induction outs arbitrary: r)
  case (Cons kv outs)
  obtain k' v where kv: "kv = (k', v)" by (cases kv)
  have n: "k' = k \<Longrightarrow> map_of outs k = None" using Cons.prems kv by (auto simp: map_of_eq_None_iff)
  show ?case using Cons.prems n
    by (cases "k' = k") (auto simp: kv Cons.IH outputs_set_output split: option.split)
qed (auto split: option.split)

text \<open>
  Outputs are taken once: a known output keeps its value and whether it was sent, a new one is
  taken when its key and its value are within the limits.
\<close>

theorem outputs_taken_once:
  assumes "distinct (List.map fst outs)"
  shows "map_of (outputs (SetOutputs now outs r)) k =
    (case map_of (outputs r) k of
       Some o' \<Rightarrow> Some o'
     | None \<Rightarrow>
         (case map_of outs k of
            Some v \<Rightarrow> if length k \<le> maxOutputKeyLen \<and> length v \<le> maxOutputValueLen
               then Some \<lparr>out_value = v, out_sent = False\<rparr> else None
          | None \<Rightarrow> None))"
  unfolding SetOutputs_def by (rule outputs_fold [OF assms])

theorem outputs_taken_once_witness:
  "map_of (outputs (SetOutputs 0 [(''a'', ''1''), (''b'', ''2'')] demo_rep)) ''b'' = Some \<lparr>out_value = ''2'', out_sent = False\<rparr>"
  by (subst outputs_taken_once) (simp_all add: demo_rep_def NewReporter_def maxOutputKeyLen_def maxOutputValueLen_def)

end
