(* ===== verification/CacheStorage.thy ===== *)
theory CacheStorage
  imports GoText "HOL-Library.List_Lexorder" "HOL-Library.Char_ord" "HOL-Library.Multiset"
begin

text \<open>
  The blob storage of the cache server, \<^verbatim>\<open>act/artifactcache/storage.go\<close>: the parts of an upload
  under their names, the ordering of staged blocks, and the commit that assembles them. The file
  system is a map from paths to contents and a set of directories; its calls fail where the code
  can meet a missing file or directory, and the reader of an upload may fail half way. The hash of
  a block's name (\<^verbatim>\<open>crypto/sha256\<close>) is an argument.
\<close>

section \<open>The file system\<close>

text \<open>A path is the list of its components, as \<^verbatim>\<open>filepath.Join\<close> gets them.\<close>

type_synonym path = "string list"

record fs =
  files :: "(path \<times> string) list"
  dirs :: "path list"

definition ErrNotExist :: go_error where
  "ErrNotExist = Errorf ''file does not exist''"

definition fs_wf :: "fs \<Rightarrow> bool" where
  "fs_wf s = distinct (List.map fst (files s))"

definition os_ReadFile :: "path \<Rightarrow> fs \<Rightarrow> string option" where
  "os_ReadFile p s = map_of (files s) p"

definition under :: "path \<Rightarrow> path \<Rightarrow> bool" where
  "under d p = (take (length d) p = d)"

definition MkdirAll :: "path \<Rightarrow> fs \<Rightarrow> fs" where
  "MkdirAll d s = s\<lparr>dirs := List.map (\<lambda>n. take n d) [0..<Suc (length d)] @ dirs s\<rparr>"

definition put_file :: "path \<Rightarrow> string \<Rightarrow> fs \<Rightarrow> fs" where
  "put_file p c s = s\<lparr>files := AList.update p c (files s)\<rparr>"

definition os_Remove :: "path \<Rightarrow> fs \<Rightarrow> fs" where
  "os_Remove p s = s\<lparr>files := filter (\<lambda>(q, c). q \<noteq> p) (files s)\<rparr>"

definition RemoveAll :: "path \<Rightarrow> fs \<Rightarrow> fs" where
  "RemoveAll d s = s\<lparr>files := filter (\<lambda>(q, c). \<not> under d q) (files s), dirs := filter (\<lambda>q. \<not> under d q) (dirs s)\<rparr>"

definition os_Rename :: "path \<Rightarrow> path \<Rightarrow> fs \<Rightarrow> go_error option \<times> fs" where
  "os_Rename p q s =
     (case os_ReadFile p s of
        None \<Rightarrow> (Some ErrNotExist, s)
      | Some c \<Rightarrow> (None, put_file q c (os_Remove p s)))"

text \<open>The plain files of a directory by name; directories in it would be skipped by every caller.\<close>

definition ReadDir :: "path \<Rightarrow> fs \<Rightarrow> go_error + string list" where
  "ReadDir d s =
     (if d \<notin> set (dirs s) then Inl ErrNotExist
      else Inr (sort (List.map last (filter (\<lambda>p. p \<noteq> [] \<and> butlast p = d) (List.map fst (files s))))))"

section \<open>Names\<close>

definition hex_char :: "nat \<Rightarrow> char" where "hex_char n = ''0123456789abcdef'' ! n"

fun hex_digits :: "nat \<Rightarrow> string" where
  "hex_digits n = (if n < 16 then [hex_char n] else hex_digits (n div 16) @ [hex_char (n mod 16)])"

declare hex_digits.simps [simp del]

definition hex_pad :: "nat \<Rightarrow> nat \<Rightarrow> string" where
  "hex_pad w n = replicate (w - length (hex_digits n)) CHR ''0'' @ hex_digits n"

text \<open>\<^verbatim>\<open>%016x\<close> of an int64: the sign counts towards the width.\<close>

definition fmt_016x :: "int \<Rightarrow> string" where
  "fmt_016x i = (if i < 0 then CHR ''-'' # hex_pad 15 (nat (- i)) else hex_pad 16 (nat i))"

record storage =
  rootDir :: path
  sha256 :: "string \<Rightarrow> string"

definition filename :: "storage \<Rightarrow> nat \<Rightarrow> path" where
  "filename st cid = rootDir st @ [hex_pad 2 (cid mod 255), nat_digits cid]"

definition tempDir :: "storage \<Rightarrow> nat \<Rightarrow> path" where
  "tempDir st cid = rootDir st @ [''tmp'', nat_digits cid]"

definition tempName :: "storage \<Rightarrow> nat \<Rightarrow> int \<Rightarrow> path" where
  "tempName st cid offset = tempDir st cid @ [fmt_016x offset]"

definition blockFilePrefix :: string where "blockFilePrefix = ''block-''"

definition blockName :: "storage \<Rightarrow> nat \<Rightarrow> string \<Rightarrow> path" where
  "blockName st cid blockID = tempDir st cid @ [blockFilePrefix @ sha256 st blockID]"

section \<open>Operations\<close>

text \<open>The reader of a request's body: what it yields, and an error if it breaks off.\<close>

type_synonym reader = "string \<times> go_error option"

definition Exist :: "storage \<Rightarrow> nat \<Rightarrow> fs \<Rightarrow> bool" where
  "Exist st cid s = (os_ReadFile (filename st cid) s \<noteq> None)"

definition writeFile :: "path \<Rightarrow> reader \<Rightarrow> fs \<Rightarrow> go_error option \<times> fs" where
  "writeFile name rd s = (snd rd, put_file name (fst rd) (MkdirAll (butlast name) s))"

definition Write :: "storage \<Rightarrow> nat \<Rightarrow> int \<Rightarrow> reader \<Rightarrow> fs \<Rightarrow> go_error option \<times> fs" where
  "Write st cid offset rd s = writeFile (tempName st cid offset) rd s"

definition WriteBlock :: "storage \<Rightarrow> nat \<Rightarrow> string \<Rightarrow> reader \<Rightarrow> fs \<Rightarrow> go_error option \<times> fs" where
  "WriteBlock st cid blockID rd s = writeFile (blockName st cid blockID) rd s"

fun order_blocks :: "storage \<Rightarrow> nat \<Rightarrow> nat \<Rightarrow> string list \<Rightarrow> fs \<Rightarrow> go_error option \<times> fs" where
  "order_blocks st cid i [] s = (None, s)"
| "order_blocks st cid i (b # bs) s =
     (case os_Rename (blockName st cid b) (tempName st cid (int i)) s of
        (Some err, s) \<Rightarrow>
          (Some (if errors_is err ErrNotExist
                 then Wrap (''block '' @ gq b @ '' of cache '' @ nat_digits cid @ '' was never uploaded: '' @ error_string err) err
                 else err), s)
      | (None, s) \<Rightarrow> order_blocks st cid (Suc i) bs s)"

definition OrderBlocks :: "storage \<Rightarrow> nat \<Rightarrow> string list \<Rightarrow> fs \<Rightarrow> go_error option \<times> fs" where
  "OrderBlocks st cid blockIDs s = order_blocks st cid 0 blockIDs s"

definition tempNames :: "storage \<Rightarrow> nat \<Rightarrow> fs \<Rightarrow> go_error + path list" where
  "tempNames st cid s =
     (case ReadDir (tempDir st cid) s of
        Inl e \<Rightarrow> Inl e
      | Inr names \<Rightarrow>
          Inr (List.map (\<lambda>n. tempDir st cid @ [n]) (filter (\<lambda>n. \<not> has_prefix blockFilePrefix n) names)))"

text \<open>The parts are read one after the other into the file just created.\<close>

fun copy_parts :: "path \<Rightarrow> path list \<Rightarrow> int \<Rightarrow> fs \<Rightarrow> (go_error + int) \<times> fs" where
  "copy_parts name [] written s = (Inr written, s)"
| "copy_parts name (v # vs) written s =
     (case os_ReadFile v s of
        None \<Rightarrow> (Inl ErrNotExist, s)
      | Some c \<Rightarrow>
          copy_parts name vs (written + int (length c))
            (put_file name ((case os_ReadFile name s of None \<Rightarrow> [] | Some d \<Rightarrow> d) @ c) s))"

definition assemble :: "path \<Rightarrow> path list \<Rightarrow> fs \<Rightarrow> (go_error + int) \<times> fs" where
  "assemble name parts s =
     (case parts of
        [p] \<Rightarrow>
          (case os_ReadFile p s of
             None \<Rightarrow> (Inl ErrNotExist, s)
           | Some c \<Rightarrow>
               (case os_Rename p name s of
                  (Some e, s) \<Rightarrow> (Inl e, s)
                | (None, s) \<Rightarrow> (Inr (int (length c)), s)))
      | _ \<Rightarrow> copy_parts name parts 0 (put_file name [] s))"

definition broken_file :: "int \<Rightarrow> int \<Rightarrow> go_error" where
  "broken_file written sz = Errorf (''broken file: '' @ itoa written @ '' != '' @ itoa sz)"

definition Commit :: "storage \<Rightarrow> nat \<Rightarrow> int \<Rightarrow> fs \<Rightarrow> (go_error + int) \<times> fs" where
  "Commit st cid sz s =
     (case (case tempNames st cid s of
              Inl e \<Rightarrow> (Inl e, s)
            | Inr parts \<Rightarrow>
                (case assemble (filename st cid) parts (MkdirAll (butlast (filename st cid)) s) of
                   (Inl e, s) \<Rightarrow> (Inl e, s)
                 | (Inr written, s) \<Rightarrow>
                     if 0 \<le> sz \<and> written \<noteq> sz
                     then (Inl (broken_file written sz), os_Remove (filename st cid) s)
                     else (Inr written, s)))
      of (r, s) \<Rightarrow> (r, RemoveAll (tempDir st cid) s))"

definition Remove :: "storage \<Rightarrow> nat \<Rightarrow> fs \<Rightarrow> fs" where
  "Remove st cid s = RemoveAll (tempDir st cid) (os_Remove (filename st cid) s)"

definition Serve :: "storage \<Rightarrow> nat \<Rightarrow> fs \<Rightarrow> string option" where
  "Serve st cid s = os_ReadFile (filename st cid) s"

section \<open>Names order like their offsets\<close>

fun hex_fixed :: "nat \<Rightarrow> nat \<Rightarrow> string" where
  "hex_fixed 0 n = []"
| "hex_fixed (Suc w) n = hex_char (n div 16 ^ w) # hex_fixed w (n mod 16 ^ w)"

lemma hex_fixed_snoc:
  "n < 16 ^ Suc w \<Longrightarrow> hex_fixed (Suc w) n = hex_fixed w (n div 16) @ [hex_char (n mod 16)]"
proof (induction w arbitrary: n)
  case (Suc w)
  have a: "n mod 16 ^ Suc w div 16 = n div 16 mod 16 ^ w"
    by (simp add: mod_mult2_eq div_mult2_eq)
  have b: "n mod 16 ^ Suc w mod 16 = n mod 16"
    by (simp add: mod_mult2_eq)
  have c: "n div 16 ^ Suc w = n div 16 div 16 ^ w" by (simp add: div_mult2_eq)
  have "hex_fixed (Suc (Suc w)) n = hex_char (n div 16 ^ Suc w) # hex_fixed (Suc w) (n mod 16 ^ Suc w)"
    by simp
  also have "hex_fixed (Suc w) (n mod 16 ^ Suc w) =
      hex_fixed w (n mod 16 ^ Suc w div 16) @ [hex_char (n mod 16 ^ Suc w mod 16)]"
    by (rule Suc.IH) simp
  finally show ?case unfolding a b c by simp
qed simp

lemma length_hex_digits: "n < 16 ^ Suc w \<Longrightarrow> length (hex_digits n) \<le> Suc w"
proof (induction w arbitrary: n)
  case 0
  then show ?case by (simp add: hex_digits.simps)
next
  case (Suc w)
  then have "n div 16 < 16 ^ Suc w" by (simp add: less_mult_imp_div_less)
  from Suc.IH [OF this] show ?case by (simp add: hex_digits.simps [of n])
qed

lemma hex_pad_fixed: "n < 16 ^ Suc w \<Longrightarrow> hex_pad (Suc w) n = hex_fixed (Suc w) n"
proof (induction w arbitrary: n)
  case 0
  then show ?case by (simp add: hex_pad_def hex_digits.simps)
next
  case (Suc w)
  then have lt: "n div 16 < 16 ^ Suc w" by (simp add: less_mult_imp_div_less)
  have "hex_pad (Suc (Suc w)) n = hex_pad (Suc w) (n div 16) @ [hex_char (n mod 16)]"
  proof (cases "n < 16")
    case True
    then show ?thesis
      by (simp add: hex_pad_def hex_digits.simps [of n] hex_digits.simps [of 0] hex_char_def replicate_append_same)
  next
    case False
    then show ?thesis using length_hex_digits [OF lt]
      by (simp add: hex_pad_def hex_digits.simps [of n])
  qed
  also have "\<dots> = hex_fixed (Suc (Suc w)) n"
    unfolding Suc.IH [OF lt] hex_fixed_snoc [OF Suc.prems] ..
  finally show ?case .
qed

lemma hex_pad_eq: "0 < w \<Longrightarrow> n < 16 ^ w \<Longrightarrow> hex_pad w n = hex_fixed w n"
  using hex_pad_fixed by (cases w) auto

lemma hex_char_less: "a < b \<Longrightarrow> b < 16 \<Longrightarrow> hex_char a < hex_char b"
proof -
  assume ab: "a < b" "b < 16"
  have "list_all (\<lambda>b. list_all (\<lambda>a. hex_char a < hex_char b) [0..<b]) [0..<16]" by code_simp
  with ab show ?thesis by (simp add: list_all_iff)
qed

lemma hex_fixed_less: "n < m \<Longrightarrow> m < 16 ^ w \<Longrightarrow> hex_fixed w n < hex_fixed w m"
proof (induction w arbitrary: n m)
  case (Suc w)
  have d: "m div 16 ^ w < 16" using Suc.prems(2) by (simp add: less_mult_imp_div_less mult.commute)
  have le: "n div 16 ^ w \<le> m div 16 ^ w" using Suc.prems(1) by (simp add: div_le_mono)
  show ?case
  proof (cases "n div 16 ^ w = m div 16 ^ w")
    case True
    then have "n mod 16 ^ w < m mod 16 ^ w"
      using Suc.prems(1) by (metis div_mult_mod_eq nat_add_left_cancel_less)
    with Suc.IH [of "n mod 16 ^ w" "m mod 16 ^ w"] True show ?thesis by simp
  next
    case False
    with le have "n div 16 ^ w < m div 16 ^ w" by simp
    from hex_char_less [OF this d] show ?thesis by simp
  qed
qed simp

lemma fmt_016x_less:
  assumes "0 \<le> a" and "a < b" and "b < 2 ^ 63"
  shows "fmt_016x a < fmt_016x b"
proof -
  have ab: "nat a < nat b" "nat b < 16 ^ 16" using assms by auto
  then have "nat a < 16 ^ 16" by linarith
  with ab have "hex_pad 16 (nat a) < hex_pad 16 (nat b)"
    using hex_fixed_less [OF ab] by (simp add: hex_pad_eq)
  then show ?thesis using assms by (simp add: fmt_016x_def)
qed


lemma fmt_016x_inj: "0 \<le> a \<Longrightarrow> a < 2 ^ 63 \<Longrightarrow> 0 \<le> b \<Longrightarrow> b < 2 ^ 63 \<Longrightarrow> fmt_016x a = fmt_016x b \<longleftrightarrow> a = b"
  using fmt_016x_less [of a b] fmt_016x_less [of b a] by (cases a b rule: linorder_cases) auto

lemma hex_char_not: "n < 16 \<Longrightarrow> hex_char n \<noteq> CHR ''l'' \<and> hex_char n \<noteq> CHR ''t''"
proof -
  assume "n < 16"
  moreover have "list_all (\<lambda>n. hex_char n \<noteq> CHR ''l'' \<and> hex_char n \<noteq> CHR ''t'') [0..<16]" by code_simp
  ultimately show ?thesis by (simp add: list_all_iff)
qed

lemma hex_fixed_not: "n < 16 ^ w \<Longrightarrow> CHR ''l'' \<notin> set (hex_fixed w n) \<and> CHR ''t'' \<notin> set (hex_fixed w n)"
proof (induction w arbitrary: n)
  case (Suc w)
  have "n div 16 ^ w < 16" using Suc.prems by (simp add: less_mult_imp_div_less mult.commute)
  from hex_char_not [OF this] Suc.IH [of "n mod 16 ^ w"] show ?case by auto
qed simp

lemma fmt_016x_not_block: "0 \<le> a \<Longrightarrow> a < 2 ^ 63 \<Longrightarrow> \<not> has_prefix blockFilePrefix (fmt_016x a)"
proof -
  assume a: "0 \<le> a" "a < 2 ^ 63"
  then have n: "nat a < 16 ^ 16" by simp
  have "CHR ''l'' \<notin> set (fmt_016x a)"
    using hex_fixed_not [OF n] n a by (simp add: fmt_016x_def hex_pad_eq)
  then show ?thesis by (auto simp: has_prefix_iff blockFilePrefix_def)
qed

lemma filename_dir_not_tmp: "hex_pad 2 (n mod 255) \<noteq> ''tmp''"
proof -
  have l: "n mod 255 < 16 ^ 2" by (simp add: order.strict_trans [of _ 255])
  then have "CHR ''t'' \<notin> set (hex_pad 2 (n mod 255))"
    using hex_fixed_not [OF l] by (simp add: hex_pad_eq)
  then show ?thesis by auto
qed

lemma nat_digits_inj [simp]: "nat_digits a = nat_digits b \<longleftrightarrow> a = b"
  by (metis digits_val_nat_digits option.inject)

section \<open>Reading the file system\<close>

lemma map_of_filter_key: "map_of (filter (\<lambda>(q, c). P q) xs) p = (if P p then map_of xs p else None)"
  by (induction xs) auto

lemma read_simps [simp]:
  "os_ReadFile p (put_file q c s) = (if p = q then Some c else os_ReadFile p s)"
  "os_ReadFile p (os_Remove q s) = (if p = q then None else os_ReadFile p s)"
  "os_ReadFile p (RemoveAll d s) = (if under d p then None else os_ReadFile p s)"
  "os_ReadFile p (MkdirAll d s) = os_ReadFile p s"
  by (auto simp: os_ReadFile_def put_file_def os_Remove_def RemoveAll_def MkdirAll_def update_conv' map_of_filter_key)

lemma fs_wf_simps [simp]:
  "fs_wf s \<Longrightarrow> fs_wf (put_file p c s)" "fs_wf s \<Longrightarrow> fs_wf (os_Remove p s)" "fs_wf s \<Longrightarrow> fs_wf (RemoveAll d s)"
  "fs_wf (MkdirAll d s) = fs_wf s"
  by (auto simp: fs_wf_def put_file_def os_Remove_def RemoveAll_def MkdirAll_def distinct_update distinct_map_filter)

lemma dirs_simps [simp]:
  "dirs (put_file p c s) = dirs s" "dirs (os_Remove p s) = dirs s" "d \<in> set (dirs (MkdirAll d s))"
  "e \<in> set (dirs s) \<Longrightarrow> e \<in> set (dirs (MkdirAll d s))"
  by (auto simp: put_file_def os_Remove_def MkdirAll_def image_iff intro!: bexI [of _ "length d"])

lemma under_append [simp]: "under d (d @ p)"
  by (simp add: under_def)

lemma under_same_length: "length p = length d \<Longrightarrow> under d p \<longleftrightarrow> p = d"
  by (auto simp: under_def)

lemma paths_apart [simp]:
  "\<not> under (tempDir st cid) (filename st cid')" "filename st cid = filename st cid' \<longleftrightarrow> cid = cid'"
  "filename st cid' \<noteq> tempDir st cid @ [n]"
proof -
  show "\<not> under (tempDir st cid) (filename st cid')"
    using filename_dir_not_tmp by (simp add: under_same_length tempDir_def filename_def)
  then show "filename st cid' \<noteq> tempDir st cid @ [n]" by (metis under_append)
  show "filename st cid = filename st cid' \<longleftrightarrow> cid = cid'"
    by (auto simp: filename_def)
qed

text \<open>The names of a directory, from what can be read in it.\<close>

lemma ReadDir_eq:
  assumes "fs_wf s" and "d \<in> set (dirs s)" and "sorted ns" and "distinct ns"
    and "\<And>n. n \<in> set ns \<longleftrightarrow> os_ReadFile (d @ [n]) s \<noteq> None"
  shows "ReadDir d s = Inr ns"
proof -
  let ?ps = "filter (\<lambda>p. p \<noteq> [] \<and> butlast p = d) (List.map fst (files s))"
  have here: "p \<in> set ?ps \<longleftrightarrow> (\<exists>n. p = d @ [n] \<and> os_ReadFile p s \<noteq> None)" for p
    by (auto simp: os_ReadFile_def map_of_eq_None_iff image_iff snoc_eq_iff_butlast)
       (metis append_butlast_last_id)
  have "inj_on last (set ?ps)" by (auto simp: inj_on_def) (metis append_butlast_last_id)
  then have d: "distinct (List.map last ?ps)"
    using assms(1) by (simp add: distinct_map fs_wf_def)
  have "set (List.map last ?ps) = set ns"
    using here assms(5) by (auto simp: image_iff) (metis last_snoc)
  then have "sort (List.map last ?ps) = ns"
    using sorted_distinct_set_unique [of "sort (List.map last ?ps)" ns] d assms(3,4) by simp
  then show ?thesis using assms(2) by (simp add: ReadDir_def)
qed

section \<open>Assembling\<close>

lemma copy_parts_spec:
  "List.map (\<lambda>v. os_ReadFile v s) vs = List.map Some ds \<Longrightarrow> name \<notin> set vs \<Longrightarrow> os_ReadFile name s = Some cur \<Longrightarrow>
   fs_wf s \<Longrightarrow>
   \<exists>s'. copy_parts name vs w s = (Inr (w + int (length (concat ds))), s') \<and> fs_wf s' \<and>
     (\<forall>p. os_ReadFile p s' = (if p = name then Some (cur @ concat ds) else os_ReadFile p s))"
proof (induction vs arbitrary: ds s cur w)
  case (Cons v vs)
  then obtain c ds' where ds: "ds = c # ds'" "os_ReadFile v s = Some c"
    "List.map (\<lambda>v. os_ReadFile v s) vs = List.map Some ds'" by (cases ds) auto
  let ?s = "put_file name (cur @ c) s"
  have "List.map (\<lambda>v. os_ReadFile v ?s) vs = List.map Some ds'"
    using Cons.prems(2) by (intro trans [OF map_cong ds(3)]) auto
  from Cons.IH [OF this, of "cur @ c" "w + int (length c)"] Cons.prems(2,4)
  obtain s' where s': "copy_parts name vs (w + int (length c)) ?s = (Inr (w + int (length c) + int (length (concat ds'))), s')"
    "fs_wf s'" "\<forall>p. os_ReadFile p s' = (if p = name then Some ((cur @ c) @ concat ds') else os_ReadFile p ?s)"
    by auto
  have "copy_parts name (v # vs) w s = copy_parts name vs (w + int (length c)) ?s"
    using ds(2) Cons.prems(3) by simp
  with s' show ?case by (intro exI [of _ s']) (simp add: ds(1))
qed auto

lemma assemble_spec:
  assumes "List.map (\<lambda>v. os_ReadFile v s) vs = List.map Some ds" and "name \<notin> set vs" and "fs_wf s"
  shows "\<exists>s'. assemble name vs s = (Inr (int (length (concat ds))), s') \<and> fs_wf s' \<and>
    (\<forall>p. p \<notin> set vs \<longrightarrow> os_ReadFile p s' = (if p = name then Some (concat ds) else os_ReadFile p s))"
proof (cases "\<exists>v. vs = [v]")
  case True
  then obtain v c where v: "vs = [v]" "ds = [c]" "os_ReadFile v s = Some c"
    using assms(1) by (cases ds) auto
  then show ?thesis using assms(2,3)
    by (auto simp: assemble_def os_Rename_def)
next
  case False
  let ?s = "put_file name [] s"
  have "List.map (\<lambda>v. os_ReadFile v ?s) vs = List.map Some ds"
    using assms(2) by (intro trans [OF map_cong assms(1)]) auto
  from copy_parts_spec [OF this assms(2), of "[]" 0] assms(3)
  obtain s' where "copy_parts name vs 0 ?s = (Inr (int (length (concat ds))), s')" "fs_wf s'"
    "\<forall>p. os_ReadFile p s' = (if p = name then Some (concat ds) else os_ReadFile p ?s)" by auto
  moreover have "assemble name vs s = copy_parts name vs 0 ?s"
    using False by (auto simp: assemble_def split: list.split)
  ultimately show ?thesis by auto
qed


lemma Commit_spec:
  assumes "tempNames st cid s = Inr vs" and "List.map (\<lambda>v. os_ReadFile v s) vs = List.map Some ds"
    and "\<And>v. v \<in> set vs \<Longrightarrow> under (tempDir st cid) v" and "fs_wf s"
  shows "\<exists>s'. Commit st cid sz s =
      ((if 0 \<le> sz \<and> int (length (concat ds)) \<noteq> sz then Inl (broken_file (int (length (concat ds))) sz)
        else Inr (int (length (concat ds)))), s') \<and> fs_wf s' \<and>
    Serve st cid s' = (if 0 \<le> sz \<and> int (length (concat ds)) \<noteq> sz then None else Some (concat ds)) \<and>
    (\<forall>p. p \<noteq> filename st cid \<longrightarrow> os_ReadFile p s' = (if under (tempDir st cid) p then None else os_ReadFile p s))"
proof -
  let ?n = "filename st cid"
  let ?s0 = "MkdirAll (butlast ?n) s"
  have n: "?n \<notin> set vs" using assms(3) paths_apart(1) by blast
  have "List.map (\<lambda>v. os_ReadFile v ?s0) vs = List.map Some ds" using assms(2) by simp
  from assemble_spec [OF this n] assms(4) obtain s1 where
    s1: "assemble ?n vs ?s0 = (Inr (int (length (concat ds))), s1)" "fs_wf s1" and
    s1r: "\<forall>p. p \<notin> set vs \<longrightarrow> os_ReadFile p s1 = (if p = ?n then Some (concat ds) else os_ReadFile p ?s0)"
    by auto
  have s1r: "os_ReadFile p s1 = (if p = ?n then Some (concat ds) else os_ReadFile p s)" if "p \<notin> set vs" for p
    using s1r that by simp
  have out: "os_ReadFile p s1 = os_ReadFile p s" if "\<not> under (tempDir st cid) p" "p \<noteq> ?n" for p
    using s1r [of p] that assms(3) by auto
  show ?thesis
  proof (cases "0 \<le> sz \<and> int (length (concat ds)) \<noteq> sz")
    case True
    with assms(1) s1(1) have "Commit st cid sz s =
        (Inl (broken_file (int (length (concat ds))) sz), RemoveAll (tempDir st cid) (os_Remove ?n s1))"
      by (simp add: Commit_def)
    then show ?thesis
      using True s1(2) out
      by (intro exI [of _ "RemoveAll (tempDir st cid) (os_Remove ?n s1)"]) (auto simp: Serve_def)
  next
    case False
    with assms(1) s1(1) have "Commit st cid sz s = (Inr (int (length (concat ds))), RemoveAll (tempDir st cid) s1)"
      by (simp add: Commit_def)
    then show ?thesis
      using False s1(2) out s1r [OF n]
      by (intro exI [of _ "RemoveAll (tempDir st cid) s1"]) (auto simp: Serve_def)
  qed
qed

lemma tempNames_eq:
  assumes "fs_wf s" and "tempDir st cid \<in> set (dirs s)" and "sorted ns" and "distinct ns"
    and "\<And>n. n \<in> set ns \<longleftrightarrow> os_ReadFile (tempDir st cid @ [n]) s \<noteq> None"
  shows "tempNames st cid s = Inr (List.map (\<lambda>n. tempDir st cid @ [n]) (filter (\<lambda>n. \<not> has_prefix blockFilePrefix n) ns))"
  using ReadDir_eq [OF assms] by (simp add: tempNames_def)

section \<open>What a reader of the store sees of one blob\<close>

text \<open>
  For each id: whether an upload is open (its directory is there), its parts by offset, and the
  committed blob. Offsets are those of an int64 that is not negative.
\<close>

definition good_offset :: "int \<Rightarrow> bool" where
  "good_offset i = (0 \<le> i \<and> i < 2 ^ 63)"

definition is_open :: "storage \<Rightarrow> fs \<Rightarrow> nat \<Rightarrow> bool" where
  "is_open st s cid = (tempDir st cid \<in> set (dirs s))"

definition part :: "storage \<Rightarrow> fs \<Rightarrow> nat \<Rightarrow> int \<Rightarrow> string option" where
  "part st s cid i = (if good_offset i then os_ReadFile (tempName st cid i) s else None)"

type_synonym view = "bool \<times> (int \<Rightarrow> string option) \<times> string option"

definition view_of :: "storage \<Rightarrow> fs \<Rightarrow> nat \<Rightarrow> view" where
  "view_of st s cid = (is_open st s cid, part st s cid, Serve st cid s)"

definition assembled :: "(int \<Rightarrow> string option) \<Rightarrow> string" where
  "assembled p = concat (List.map (\<lambda>i. the (p i)) (sorted_list_of_set (dom p)))"

definition commit_result :: "int \<Rightarrow> (int \<Rightarrow> string option) \<Rightarrow> go_error + int" where
  "commit_result sz p =
     (let written = int (length (assembled p))
      in if 0 \<le> sz \<and> written \<noteq> sz then Inl (broken_file written sz) else Inr written)"

text \<open>The operations on a blob, and what each does to its view.\<close>

datatype blob_op = BWrite nat int reader | BCommit nat int | BRemove nat

fun blob_target :: "blob_op \<Rightarrow> nat" where
  "blob_target (BWrite cid i rd) = cid"
| "blob_target (BCommit cid sz) = cid"
| "blob_target (BRemove cid) = cid"

fun blob_op_ok :: "blob_op \<Rightarrow> bool" where
  "blob_op_ok (BWrite cid i rd) = good_offset i"
| "blob_op_ok _ = True"

fun view_step :: "blob_op \<Rightarrow> view \<Rightarrow> view" where
  "view_step (BWrite cid i rd) (opened, p, b) = (True, p(i := Some (fst rd)), b)"
| "view_step (BCommit cid sz) (opened, p, b) =
     (if \<not> opened then (opened, p, b)
      else (False, \<lambda>_. None, case commit_result sz p of Inl e \<Rightarrow> None | Inr n \<Rightarrow> Some (assembled p)))"
| "view_step (BRemove cid) (opened, p, b) = (False, \<lambda>_. None, None)"

section \<open>The contract of a blob store\<close>

locale blob_store =
  fixes ok :: "'s \<Rightarrow> bool"
    and view :: "'s \<Rightarrow> nat \<Rightarrow> view"
    and put :: "nat \<Rightarrow> int \<Rightarrow> reader \<Rightarrow> 's \<Rightarrow> go_error option \<times> 's"
    and com :: "nat \<Rightarrow> int \<Rightarrow> 's \<Rightarrow> (go_error + int) \<times> 's"
    and rem :: "nat \<Rightarrow> 's \<Rightarrow> 's"
  assumes put_ok: "ok s \<Longrightarrow> good_offset i \<Longrightarrow> ok (snd (put c i rd s))"
    and put_view: "ok s \<Longrightarrow> good_offset i \<Longrightarrow>
      view (snd (put c i rd s)) d = (if d = c then view_step (BWrite c i rd) (view s d) else view s d)"
    and com_ok: "ok s \<Longrightarrow> ok (snd (com c sz s))"
    and com_view: "ok s \<Longrightarrow> view (snd (com c sz s)) d = (if d = c then view_step (BCommit c sz) (view s d) else view s d)"
    and rem_ok: "ok s \<Longrightarrow> ok (rem c s)"
    and rem_view: "ok s \<Longrightarrow> view (rem c s) d = (if d = c then view_step (BRemove c) (view s d) else view s d)"
begin

fun apply_blob :: "blob_op \<Rightarrow> 's \<Rightarrow> 's" where
  "apply_blob (BWrite c i rd) s = snd (put c i rd s)"
| "apply_blob (BCommit c sz) s = snd (com c sz s)"
| "apply_blob (BRemove c) s = rem c s"

lemma apply_blob_ok: "ok s \<Longrightarrow> blob_op_ok x \<Longrightarrow> ok (apply_blob x s)"
  by (cases x) (auto intro: put_ok com_ok rem_ok)

lemma apply_blob_view:
  "ok s \<Longrightarrow> blob_op_ok x \<Longrightarrow> view (apply_blob x s) d = (if d = blob_target x then view_step x (view s d) else view s d)"
  by (cases x) (auto simp: put_view com_view rem_view)

lemma blobs_independent:
  "ok s \<Longrightarrow> list_all blob_op_ok xs \<Longrightarrow>
     ok (fold apply_blob xs s) \<and>
     view (fold apply_blob xs s) d = fold view_step (filter (\<lambda>x. blob_target x = d) xs) (view s d)"
  by (induction xs arbitrary: s) (auto simp: apply_blob_ok apply_blob_view)

end

section \<open>The file storage meets the contract\<close>

definition store_ok :: "storage \<Rightarrow> fs \<Rightarrow> bool" where
  "store_ok st s =
     (fs_wf s \<and> (\<forall>cid n. os_ReadFile (tempDir st cid @ [n]) s \<noteq> None \<longrightarrow>
        is_open st s cid \<and> (has_prefix blockFilePrefix n \<or> (\<exists>i. good_offset i \<and> n = fmt_016x i))))"

lemma store_ok_open: "store_ok st s \<Longrightarrow> os_ReadFile (tempDir st cid @ [n]) s \<noteq> None \<Longrightarrow> is_open st s cid"
  unfolding store_ok_def by blast

lemma tempDir_inj [simp]: "tempDir st a = tempDir st b \<longleftrightarrow> a = b"
  by (simp add: tempDir_def)

lemma under_tempDir [simp]: "under (tempDir st a) (tempDir st b @ p) \<longleftrightarrow> a = b"
  by (auto simp: under_def tempDir_def)

lemma tempName_inj: "good_offset i \<Longrightarrow> good_offset j \<Longrightarrow> tempName st a i = tempName st b j \<longleftrightarrow> a = b \<and> i = j"
  using fmt_016x_inj by (auto simp: tempName_def good_offset_def)

lemma tempName_not_filename [simp]: "filename st a \<noteq> tempName st b i" "tempName st b i \<noteq> filename st a"
  using paths_apart(3) by (metis tempName_def)+

lemma under_tempName [simp]: "under (tempDir st a) (tempName st b i) \<longleftrightarrow> a = b"
  by (simp add: tempName_def)

lemma MkdirAll_open: "is_open st (MkdirAll d s) cid \<longleftrightarrow> under (tempDir st cid) d \<or> is_open st s cid"
proof -
  have "tempDir st cid \<in> (\<lambda>n. take n d) ` {0..<Suc (length d)} \<longleftrightarrow> under (tempDir st cid) d" (is "?l \<longleftrightarrow> ?r")
  proof
    assume ?l
    then obtain n where "n \<in> {0..<Suc (length d)}" "tempDir st cid = take n d" by blast
    then show ?r by (simp add: under_def min_def)
  next
    assume r: ?r
    then have "length (tempDir st cid) \<le> length d"
      unfolding under_def by (metis length_take min.cobounded1)
    with r show ?l unfolding under_def by (metis atLeastLessThan_iff image_eqI le0 less_Suc_eq_le)
  qed
  then show ?thesis by (simp add: is_open_def MkdirAll_def del: upt_Suc)
qed

lemma open_simps [simp]:
  "is_open st (put_file p c s) cid = is_open st s cid" "is_open st (os_Remove p s) cid = is_open st s cid"
  "is_open st (RemoveAll (tempDir st a) s) cid \<longleftrightarrow> a \<noteq> cid \<and> is_open st s cid"
  using under_tempDir [of st a cid "[]"]
  by (auto simp: is_open_def RemoveAll_def)

text \<open>No part of the commit but the final removal touches the directories of the uploads.\<close>

lemma copy_parts_open: "is_open st (snd (copy_parts name vs w s)) d = is_open st s d"
  by (induction name vs w s rule: copy_parts.induct) (auto split: option.splits)

lemma assemble_open: "is_open st (snd (assemble name vs s)) d = is_open st s d"
  by (auto simp: assemble_def os_Rename_def copy_parts_open split: list.splits option.splits)

lemma not_under_dir: "\<not> under (tempDir st d) (butlast (filename st c))"
  by (auto simp: under_def tempDir_def filename_def butlast_append dest: arg_cong [of _ _ length])

lemma Commit_open: "is_open st (snd (Commit st c sz s)) d \<longleftrightarrow> d \<noteq> c \<and> is_open st s d"
proof (cases "tempNames st c s")
  case (Inl e)
  then show ?thesis by (auto simp: Commit_def)
next
  case (Inr vs)
  let ?s0 = "MkdirAll (butlast (filename st c)) s"
  have "is_open st ?s0 d = is_open st s d" by (simp add: MkdirAll_open not_under_dir)
  then have "is_open st (snd (assemble (filename st c) vs ?s0)) d = is_open st s d"
    by (simp add: assemble_open)
  then show ?thesis
    by (auto simp: Commit_def Inr split: prod.splits sum.splits)
qed

lemma write_view:
  assumes "store_ok st s" and "good_offset i"
  shows "store_ok st (snd (Write st c i rd s))"
    and "view_of st (snd (Write st c i rd s)) d =
      (if d = c then view_step (BWrite c i rd) (view_of st s d) else view_of st s d)"
proof -
  let ?s = "snd (Write st c i rd s)"
  have b: "butlast (tempName st c i) = tempDir st c" by (simp add: tempName_def)
  have rd: "os_ReadFile p ?s = (if p = tempName st c i then Some (fst rd) else os_ReadFile p s)" for p
    by (simp add: Write_def writeFile_def)
  have op: "is_open st ?s cid \<longleftrightarrow> cid = c \<or> is_open st s cid" for cid
    using under_tempDir [of st cid c "[]"] by (auto simp: Write_def writeFile_def MkdirAll_open b)
  have "fs_wf ?s" using assms(1) by (simp add: Write_def writeFile_def store_ok_def)
  then show "store_ok st ?s"
    using assms unfolding store_ok_def rd op by (auto simp: tempName_def)
  have "part st ?s d j = (if d = c \<and> j = i then Some (fst rd) else part st s d j)" for j
    using assms(2) tempName_inj [of j i st d c] by (auto simp: part_def rd)
  then show "view_of st ?s d = (if d = c then view_step (BWrite c i rd) (view_of st s d) else view_of st s d)"
    by (auto simp: view_of_def op Serve_def rd)
qed

lemma remove_view:
  assumes "store_ok st s"
  shows "store_ok st (Remove st c s)"
    and "view_of st (Remove st c s) d = (if d = c then view_step (BRemove c) (view_of st s d) else view_of st s d)"
proof -
  let ?s = "Remove st c s"
  have rd: "os_ReadFile p ?s = (if under (tempDir st c) p \<or> p = filename st c then None else os_ReadFile p s)" for p
    by (simp add: Remove_def)
  have op: "is_open st ?s cid \<longleftrightarrow> cid \<noteq> c \<and> is_open st s cid" for cid
    by (auto simp: Remove_def)
  have "fs_wf ?s" using assms(1) by (simp add: Remove_def store_ok_def)
  then show "store_ok st ?s"
    using assms unfolding store_ok_def rd op by (auto split: if_splits)
  have "part st ?s d = (if d = c then (\<lambda>_. None) else part st s d)"
    by (rule ext) (auto simp: part_def rd)
  then show "view_of st ?s d = (if d = c then view_step (BRemove c) (view_of st s d) else view_of st s d)"
    by (auto simp: view_of_def op Serve_def rd)
qed

lemma sorted_fmt:
  "sorted os \<Longrightarrow> distinct os \<Longrightarrow> list_all good_offset os \<Longrightarrow>
     sorted (List.map fmt_016x os) \<and> distinct (List.map fmt_016x os)"
proof (induction os)
  case (Cons i os)
  have "fmt_016x i < fmt_016x j" if "j \<in> set os" for j
    using Cons.prems that by (intro fmt_016x_less) (auto simp: good_offset_def list_all_iff less_le)
  then show ?case using Cons by (fastforce simp: less_le)
qed simp

lemma finite_reads: "finite {n. os_ReadFile (d @ [n]) s \<noteq> None}"
proof -
  have "{n. os_ReadFile (d @ [n]) s \<noteq> None} \<subseteq> last ` fst ` set (files s)"
    by (auto simp: os_ReadFile_def image_iff dest!: map_of_SomeD) (metis fst_conv last_snoc)
  then show ?thesis by (rule finite_subset) simp
qed

lemma tempNames_parts:
  assumes "store_ok st s" and "is_open st s c"
  shows "finite (dom (part st s c))"
    and "tempNames st c s = Inr (List.map (tempName st c) (sorted_list_of_set (dom (part st s c))))"
proof -
  let ?N = "{n. os_ReadFile (tempDir st c @ [n]) s \<noteq> None}" and ?P = "dom (part st s c)"
  have good: "i \<in> ?P \<Longrightarrow> good_offset i" for i by (auto simp: part_def split: if_splits)
  have names: "{n \<in> ?N. \<not> has_prefix blockFilePrefix n} = fmt_016x ` ?P"
  proof (intro set_eqI iffI)
    fix n assume "n \<in> {n \<in> ?N. \<not> has_prefix blockFilePrefix n}"
    then have n: "os_ReadFile (tempDir st c @ [n]) s \<noteq> None" "\<not> has_prefix blockFilePrefix n" by auto
    then obtain i where "good_offset i" "n = fmt_016x i"
      using assms(1) unfolding store_ok_def by blast
    then have "good_offset i" "n = fmt_016x i" "os_ReadFile (tempName st c i) s \<noteq> None"
      using n(1) by (simp_all add: tempName_def)
    then show "n \<in> fmt_016x ` ?P" by (auto simp: part_def)
  next
    fix n assume "n \<in> fmt_016x ` ?P"
    then obtain i where "good_offset i" "n = fmt_016x i" "os_ReadFile (tempName st c i) s \<noteq> None"
      by (auto simp: part_def split: if_splits)
    then show "n \<in> {n \<in> ?N. \<not> has_prefix blockFilePrefix n}"
      using fmt_016x_not_block by (auto simp: tempName_def good_offset_def)
  qed
  have inj: "inj_on fmt_016x ?P"
    using good fmt_016x_inj by (auto simp: inj_on_def good_offset_def)
  have "finite (fmt_016x ` ?P)" unfolding names [symmetric] by (rule finite_subset [OF _ finite_reads]) auto
  with inj show fin: "finite ?P" using finite_imageD by blast
  let ?os = "sorted_list_of_set ?P"
  have os: "sorted ?os" "distinct ?os" "set ?os = ?P" "list_all good_offset ?os"
    using fin good by (auto simp: list_all_iff)
  let ?ns = "filter (\<lambda>n. \<not> has_prefix blockFilePrefix n) (sorted_list_of_set ?N)"
  have "set ?ns = set (List.map fmt_016x ?os)"
    using names os(3) finite_reads [of "tempDir st c" s] by auto
  then have e: "?ns = List.map fmt_016x ?os"
    using sorted_fmt [OF os(1,2,4)] by (intro sorted_distinct_set_unique) (auto intro: sorted_wrt_filter)
  have "fs_wf s" "tempDir st c \<in> set (dirs s)" using assms by (auto simp: store_ok_def is_open_def)
  from tempNames_eq [OF this, of "sorted_list_of_set ?N"] finite_reads [of "tempDir st c" s]
  have "tempNames st c s = Inr (List.map (\<lambda>n. tempDir st c @ [n]) ?ns)" by simp
  also have "\<dots> = Inr (List.map (tempName st c) ?os)"
    unfolding e by (simp add: tempName_def comp_def)
  finally show "tempNames st c s = Inr (List.map (tempName st c) ?os)" .
qed

lemma commit_opened:
  assumes "store_ok st s" and "is_open st s c"
  shows "\<exists>s'. Commit st c sz s = (commit_result sz (part st s c), s') \<and> fs_wf s' \<and>
    Serve st c s' = (case commit_result sz (part st s c) of Inl e \<Rightarrow> None | Inr n \<Rightarrow> Some (assembled (part st s c))) \<and>
    (\<forall>p. p \<noteq> filename st c \<longrightarrow> os_ReadFile p s' = (if under (tempDir st c) p then None else os_ReadFile p s)) \<and>
    (\<forall>d. is_open st s' d \<longleftrightarrow> d \<noteq> c \<and> is_open st s d)"
proof -
  let ?os = "sorted_list_of_set (dom (part st s c))"
  let ?ds = "List.map (\<lambda>i. the (part st s c i)) ?os"
  have t: "tempNames st c s = Inr (List.map (tempName st c) ?os)" and fin: "finite (dom (part st s c))"
    using tempNames_parts [OF assms] by auto
  have "os_ReadFile (tempName st c i) s = Some (the (part st s c i))" if "i \<in> set ?os" for i
    using that fin by (auto simp: part_def split: if_splits)
  then have ds: "List.map (\<lambda>v. os_ReadFile v s) (List.map (tempName st c) ?os) = List.map Some ?ds" by simp
  have u: "v \<in> set (List.map (tempName st c) ?os) \<Longrightarrow> under (tempDir st c) v" for v by (auto simp: tempName_def)
  have wf: "fs_wf s" using assms(1) by (simp add: store_ok_def)
  have pc: "concat ?ds = assembled (part st s c)" by (simp add: assembled_def)
  have od: "is_open st (snd (Commit st c sz s)) d \<longleftrightarrow> d \<noteq> c \<and> is_open st s d" for d
    by (rule Commit_open)
  from Commit_spec [OF t ds u wf, of sz] show ?thesis
    unfolding pc using od by (auto simp: commit_result_def Let_def)
qed


lemma commit_view:
  assumes "store_ok st s"
  shows "store_ok st (snd (Commit st c sz s))"
    and "view_of st (snd (Commit st c sz s)) d = (if d = c then view_step (BCommit c sz) (view_of st s d) else view_of st s d)"
    and "is_open st s c \<Longrightarrow> fst (Commit st c sz s) = commit_result sz (part st s c)"
proof -
  let ?s = "snd (Commit st c sz s)"
  have od: "is_open st ?s cid \<longleftrightarrow> cid \<noteq> c \<and> is_open st s cid" for cid by (rule Commit_open)
  have closed: "\<not> is_open st s c \<Longrightarrow> ?s = RemoveAll (tempDir st c) s"
    by (simp add: Commit_def tempNames_def ReadDir_def is_open_def)
  have none: "\<not> is_open st s c \<Longrightarrow> part st s c = (\<lambda>_. None)"
    using store_ok_open [OF assms, of c] by (intro ext) (force simp: part_def tempName_def)
  have rd: "os_ReadFile p ?s = (if under (tempDir st c) p then None else os_ReadFile p s)" if "p \<noteq> filename st c" for p
    using commit_opened [OF assms, of c sz] closed that by (cases "is_open st s c") auto
  have "fs_wf ?s"
    using commit_opened [OF assms, of c sz] closed assms by (cases "is_open st s c") (auto simp: store_ok_def)
  moreover have "tempDir st cid @ [n] \<noteq> filename st c" for cid n using paths_apart(3) by metis
  ultimately show "store_ok st ?s"
    using assms unfolding store_ok_def od by (simp add: rd)
  have p: "part st ?s d = (if d = c then (\<lambda>_. None) else part st s d)"
    by (rule ext) (auto simp: part_def rd)
  have sd: "d \<noteq> c \<Longrightarrow> Serve st d ?s = Serve st d s" by (simp add: Serve_def rd)
  show "view_of st ?s d = (if d = c then view_step (BCommit c sz) (view_of st s d) else view_of st s d)"
  proof (cases "is_open st s c")
    case True
    with commit_opened [OF assms True, of sz] show ?thesis by (auto simp: view_of_def od p sd)
  next
    case False
    have "Serve st c ?s = Serve st c s" using closed [OF False] by (simp add: Serve_def)
    with False none [OF False] show ?thesis by (auto simp: view_of_def od p sd)
  qed
  show "is_open st s c \<Longrightarrow> fst (Commit st c sz s) = commit_result sz (part st s c)"
    using commit_opened [OF assms, of c sz] by auto
qed

interpretation fs_blobs: blob_store "store_ok st" "view_of st" "Write st" "Commit st" "Remove st"
  by unfold_locales (rule write_view commit_view remove_view, assumption+)+

section \<open>Ordering blocks\<close>

lemma blockName_neq [simp]:
  "good_offset i \<Longrightarrow> blockName st a b \<noteq> tempName st c i" "good_offset i \<Longrightarrow> tempName st c i \<noteq> blockName st a b"
  "filename st c \<noteq> blockName st a b" "blockName st a b \<noteq> filename st c"
proof -
  show "good_offset i \<Longrightarrow> blockName st a b \<noteq> tempName st c i"
  proof
    assume g: "good_offset i" and "blockName st a b = tempName st c i"
    then have "blockFilePrefix @ sha256 st b = fmt_016x i" by (simp add: blockName_def tempName_def)
    then have "has_prefix blockFilePrefix (fmt_016x i)" by (metis has_prefix_append)
    with fmt_016x_not_block [of i] g show False by (simp add: good_offset_def)
  qed
  then show "good_offset i \<Longrightarrow> tempName st c i \<noteq> blockName st a b" by metis
  show "filename st c \<noteq> blockName st a b" using paths_apart(3) by (metis blockName_def)
  then show "blockName st a b \<noteq> filename st c" by metis
qed

lemma blockName_inj: "blockName st a b = blockName st c d \<longleftrightarrow> a = c \<and> sha256 st b = sha256 st d"
  by (auto simp: blockName_def)

lemma order_blocks_spec:
  "distinct (List.map (sha256 st) bs) \<Longrightarrow> int i + int (length bs) \<le> 2 ^ 63 \<Longrightarrow>
   list_all (\<lambda>b. os_ReadFile (blockName st c b) s = Some (cont b)) bs \<Longrightarrow>
   \<exists>s'. order_blocks st c i bs s = (None, s') \<and>
     (\<forall>k < length bs. os_ReadFile (tempName st c (int i + int k)) s' = Some (cont (bs ! k))) \<and>
     (\<forall>j. good_offset j \<longrightarrow> (j < int i \<or> int i + int (length bs) \<le> j) \<longrightarrow>
        os_ReadFile (tempName st c j) s' = os_ReadFile (tempName st c j) s)"
proof (induction bs arbitrary: i s)
  case (Cons b bs)
  let ?t = "tempName st c (int i)"
  let ?s = "put_file ?t (cont b) (os_Remove (blockName st c b) s)"
  have gi: "good_offset (int i)" using Cons.prems(2) by (simp add: good_offset_def)
  have step: "order_blocks st c i (b # bs) s = order_blocks st c (Suc i) bs ?s"
    using Cons.prems(3) by (simp add: os_Rename_def)
  have "list_all (\<lambda>b. os_ReadFile (blockName st c b) ?s = Some (cont b)) bs"
    using Cons.prems(1,3) gi by (auto simp: list_all_iff blockName_inj) (metis image_eqI)
  with Cons.IH [of "Suc i" ?s] Cons.prems(1,2) obtain s' where
    s': "order_blocks st c (Suc i) bs ?s = (None, s')"
    "\<forall>k < length bs. os_ReadFile (tempName st c (int (Suc i) + int k)) s' = Some (cont (bs ! k))"
    "\<forall>j. good_offset j \<longrightarrow> (j < int (Suc i) \<or> int (Suc i) + int (length bs) \<le> j) \<longrightarrow>
        os_ReadFile (tempName st c j) s' = os_ReadFile (tempName st c j) ?s"
    by auto
  have 1: "os_ReadFile (tempName st c (int i + int k)) s' = Some (cont ((b # bs) ! k))" if "k < length (b # bs)" for k
  proof (cases k)
    case 0
    with s'(3) gi show ?thesis by simp
  next
    case (Suc m)
    then have e: "int i + int k = int (Suc i) + int m" by simp
    show ?thesis unfolding e using s'(2) that Suc by simp
  qed
  have 2: "os_ReadFile (tempName st c j) s' = os_ReadFile (tempName st c j) s"
    if "good_offset j" "j < int i \<or> int i + int (length (b # bs)) \<le> j" for j
    using s'(3) that tempName_inj [OF that(1) gi, of st c c] by auto
  show ?case unfolding step using s'(1) 1 2 by blast
qed simp


lemma order_blocks_frame:
  "store_ok st s \<Longrightarrow> is_open st s c \<Longrightarrow> int i + int (length bs) \<le> 2 ^ 63 \<Longrightarrow>
   order_blocks st c i bs s = (e, s') \<Longrightarrow> store_ok st s' \<and> is_open st s' c"
proof (induction bs arbitrary: i s)
  case (Cons b bs)
  let ?t = "tempName st c (int i)"
  have gi: "good_offset (int i)" using Cons.prems(3) by (simp add: good_offset_def)
  show ?case
  proof (cases "os_ReadFile (blockName st c b) s")
    case None
    with Cons.prems show ?thesis by (auto simp: os_Rename_def)
  next
    case (Some x)
    let ?s = "put_file ?t x (os_Remove (blockName st c b) s)"
    have op: "is_open st ?s d = is_open st s d" for d by simp
    have "store_ok st ?s"
      unfolding store_ok_def op
    proof (intro conjI allI impI)
      show "fs_wf ?s" using Cons.prems(1) by (simp add: store_ok_def)
      fix d n assume r: "os_ReadFile (tempDir st d @ [n]) ?s \<noteq> None"
      show "is_open st s d" using r Cons.prems(2) store_ok_open [OF Cons.prems(1), of d n]
        by (auto simp: tempName_def split: if_splits)
      show "has_prefix blockFilePrefix n \<or> (\<exists>i. good_offset i \<and> n = fmt_016x i)"
      proof (cases "tempDir st d @ [n] = ?t")
        case True
        with gi show ?thesis by (auto simp: tempName_def)
      next
        case False
        with r have "os_ReadFile (tempDir st d @ [n]) s \<noteq> None" by (auto split: if_splits)
        with Cons.prems(1) show ?thesis unfolding store_ok_def by blast
      qed
    qed
    moreover have "order_blocks st c (Suc i) bs ?s = (e, s')"
      using Cons.prems(4) Some by (simp add: os_Rename_def)
    ultimately show ?thesis using Cons.IH [of ?s "Suc i"] Cons.prems(2,3) by simp
  qed
qed simp

lemma write_block:
  assumes "store_ok st s" and "s' = snd (WriteBlock st c b rd s)"
  shows "store_ok st s'" and "is_open st s' c" and "part st s' = part st s"
    and "os_ReadFile (blockName st c d) s' = (if sha256 st d = sha256 st b then Some (fst rd) else os_ReadFile (blockName st c d) s)"
proof -
  have bl: "butlast (blockName st c b) = tempDir st c" by (simp add: blockName_def)
  have rd: "os_ReadFile p s' = (if p = blockName st c b then Some (fst rd) else os_ReadFile p s)" for p
    by (simp add: assms(2) WriteBlock_def writeFile_def)
  have op: "is_open st s' cid \<longleftrightarrow> cid = c \<or> is_open st s cid" for cid
    using under_tempDir [of st cid c "[]"] by (auto simp: assms(2) WriteBlock_def writeFile_def MkdirAll_open bl)
  have "fs_wf s'" using assms by (simp add: WriteBlock_def writeFile_def store_ok_def)
  then show "store_ok st s'"
    using assms(1) unfolding store_ok_def rd op by (auto simp: blockName_def)
  show "is_open st s' c" by (simp add: op)
  show "part st s' = part st s"
    by (intro ext) (simp add: part_def rd)
  show "os_ReadFile (blockName st c d) s' = (if sha256 st d = sha256 st b then Some (fst rd) else os_ReadFile (blockName st c d) s)"
    by (simp add: rd blockName_inj)
qed

section \<open>Pieces of an archive\<close>

text \<open>The chunks of an archive cut into pieces, each with its offset.\<close>

fun pieces_at :: "int \<Rightarrow> string list \<Rightarrow> (int \<times> string) list" where
  "pieces_at i [] = []"
| "pieces_at i (d # ds) = (i, d) # pieces_at (i + int (length d)) ds"

lemma pieces_at_bounds:
  "list_all (\<lambda>d. d \<noteq> []) ds \<Longrightarrow> (j, x) \<in> set (pieces_at i ds) \<Longrightarrow> i \<le> j \<and> j < i + int (length (concat ds))"
proof (induction ds arbitrary: i)
  case (Cons d ds)
  show ?case
  proof (cases "(j, x) = (i, d)")
    case True
    with Cons.prems show ?thesis by (cases d) auto
  next
    case False
    with Cons.prems have "(j, x) \<in> set (pieces_at (i + int (length d)) ds)" "list_all (\<lambda>d. d \<noteq> []) ds" by auto
    from Cons.IH [OF this(2,1)] show ?thesis by simp
  qed
qed simp

lemma pieces_at_distinct: "list_all (\<lambda>d. d \<noteq> []) ds \<Longrightarrow> distinct (List.map fst (pieces_at i ds))"
proof (induction ds arbitrary: i)
  case (Cons d ds)
  have "(i, x) \<notin> set (pieces_at (i + int (length d)) ds)" for x
    using pieces_at_bounds [of ds i x "i + int (length d)"] Cons.prems by (cases d) auto
  with Cons show ?case by force
qed simp

lemma assembled_pieces: "list_all (\<lambda>d. d \<noteq> []) ds \<Longrightarrow> assembled (map_of (pieces_at i ds)) = concat ds"
proof (induction ds arbitrary: i)
  case (Cons d ds)
  let ?m = "map_of (pieces_at (i + int (length d)) ds)"
  have fin: "finite (dom ?m)" by (simp add: finite_dom_map_of)
  have lt: "i < j" if "j \<in> dom ?m" for j
  proof -
    from that obtain x where "(j, x) \<in> set (pieces_at (i + int (length d)) ds)" by (auto dest: map_of_SomeD)
    from pieces_at_bounds [OF _ this] Cons.prems show ?thesis by (cases d) auto
  qed
  then have "i \<notin> dom ?m" by blast
  then have s1: "sorted_list_of_set (insert i (dom ?m)) = i # sorted_list_of_set (dom ?m)"
    using fin lt by (simp add: insort_is_Cons less_imp_le)
  have e: "List.map (\<lambda>j. the ((?m(i \<mapsto> d)) j)) (sorted_list_of_set (dom ?m)) =
      List.map (\<lambda>j. the (?m j)) (sorted_list_of_set (dom ?m))"
    using fin lt by (intro map_cong) auto
  have "dom (?m(i \<mapsto> d)) = insert i (dom ?m)" by simp
  then have "assembled (?m(i \<mapsto> d)) = concat (List.map (\<lambda>j. the ((?m(i \<mapsto> d)) j)) (i # sorted_list_of_set (dom ?m)))"
    unfolding assembled_def by (simp only: s1)
  also have "\<dots> = d @ concat (List.map (\<lambda>j. the ((?m(i \<mapsto> d)) j)) (sorted_list_of_set (dom ?m)))"
    by simp
  also have "\<dots> = d @ assembled ?m" unfolding e assembled_def ..
  finally have "assembled (?m(i \<mapsto> d)) = d @ assembled ?m" .
  moreover have "map_of (pieces_at i (d # ds)) = ?m(i \<mapsto> d)"
    unfolding pieces_at.simps map_of.simps fst_conv snd_conv ..
  moreover have "assembled ?m = concat ds" using Cons by simp
  ultimately show ?case by (simp del: fun_upd_apply)
qed (simp add: assembled_def)

lemma fold_writes:
  "fold view_step (List.map (\<lambda>(i, d). BWrite c i (d, None)) ups) (q, p, b) =
     (q \<or> ups \<noteq> [], p ++ map_of (rev ups), b)"
  by (induction ups arbitrary: q p) (auto simp: map_add_def fun_eq_iff split: option.split)

lemma map_of_permuted:
  assumes "mset ups = mset xs" and "distinct (List.map fst xs)"
  shows "map_of (rev ups) = map_of xs"
proof -
  have "mset (List.map fst ups) = mset (List.map fst xs)" using assms(1) by (metis mset_map)
  then have "distinct (List.map fst ups)" using assms(2) by (metis mset_eq_imp_distinct_iff)
  then have "distinct (rev (List.map fst ups))" by simp
  then have "distinct (List.map fst (rev ups))" by (simp only: rev_map)
  moreover have "set (rev ups) = set xs" using assms(1) by (metis set_rev mset_eq_setD)
  ultimately show ?thesis using assms(2) by (intro map_of_inject_set [THEN iffD2]) auto
qed

section \<open>Properties\<close>

fun run_blob :: "storage \<Rightarrow> blob_op \<Rightarrow> fs \<Rightarrow> fs" where
  "run_blob st (BWrite c i rd) s = snd (Write st c i rd s)"
| "run_blob st (BCommit c sz) s = snd (Commit st c sz s)"
| "run_blob st (BRemove c) s = Remove st c s"

lemma run_blob_eq: "fs_blobs.apply_blob st = run_blob st"
proof (intro ext)
  fix x s show "fs_blobs.apply_blob st x s = run_blob st x s" by (cases x) auto
qed

lemma run_blobs:
  "store_ok st s \<Longrightarrow> list_all blob_op_ok ops \<Longrightarrow>
     view_of st (fold (run_blob st) ops s) c = fold view_step (filter (\<lambda>x. blob_target x = c) ops) (view_of st s c)"
  "store_ok st s \<Longrightarrow> list_all blob_op_ok ops \<Longrightarrow> store_ok st (fold (run_blob st) ops s)"
  using fs_blobs.blobs_independent [of st s ops c] by (simp_all add: run_blob_eq)

definition demo_storage :: storage where
  "demo_storage = \<lparr>rootDir = [''cache''], sha256 = (\<lambda>b. b)\<rparr>"

definition empty_fs :: fs where
  "empty_fs = \<lparr>files = [], dirs = [[''cache'']]\<rparr>"

lemma empty_store_ok: "store_ok st empty_fs"
  by (simp add: store_ok_def fs_wf_def empty_fs_def os_ReadFile_def)

text \<open>
  C38: the blobs of the storage are independent: whatever uploads, commits and removals interleave,
  what is seen of one blob is what its own operations alone make of it.
\<close>

theorem uploads_independent:
  assumes "store_ok st s" and "list_all blob_op_ok ops"
  shows "view_of st (fold (run_blob st) ops s) c =
    fold view_step (filter (\<lambda>x. blob_target x = c) ops) (view_of st s c)"
  using run_blobs(1) [OF assms] .

theorem uploads_independent_witness:
  "view_of demo_storage (fold (run_blob demo_storage)
       [BWrite 1 2 (''cd'', None), BWrite 2 0 (''x'', None), BWrite 1 0 (''ab'', None), BRemove 2] empty_fs) 1 =
     fold view_step [BWrite 1 2 (''cd'', None), BWrite 1 0 (''ab'', None)] (view_of demo_storage empty_fs 1)"
proof -
  let ?ops = "[BWrite 1 2 (''cd'', None), BWrite 2 0 (''x'', None), BWrite 1 0 (''ab'', None), BRemove 2]"
  have "list_all blob_op_ok ?ops" by (simp add: good_offset_def)
  from uploads_independent [OF empty_store_ok this, of demo_storage 1] show ?thesis by simp
qed

lemma upload_commit:
  assumes "store_ok st s" and "list_all (\<lambda>d. d \<noteq> []) ds" and "ds \<noteq> []" and "int (length (concat ds)) < 2 ^ 63"
    and "mset ups = mset (pieces_at 0 ds)" and "\<not> is_open st s c"
    and "list_all blob_op_ok ops" and "filter (\<lambda>x. blob_target x = c) ops = List.map (\<lambda>(i, d). BWrite c i (d, None)) ups"
    and "s' = fold (run_blob st) ops s" and "sz = int (length (concat ds))"
  shows "fst (Commit st c sz s') = Inr sz \<and> Serve st c (snd (Commit st c sz s')) = Some (concat ds)"
proof (intro conjI)
  have none: "part st s c = Map.empty"
    using store_ok_open [OF assms(1), of c] assms(6) by (intro ext) (force simp: part_def tempName_def)
  have "ups \<noteq> []" using assms(3,5) by (cases ds) auto
  then have v: "view_of st s' c = (True, map_of (pieces_at 0 ds), Serve st c s)"
    using run_blobs(1) [OF assms(1,7), of c] map_of_permuted [OF assms(5) pieces_at_distinct [OF assms(2)]]
    by (simp add: assms(8,9) fold_writes view_of_def none)
  have ok: "store_ok st s'" using run_blobs(2) [OF assms(1,7)] assms(9) by simp
  have a: "assembled (part st s' c) = concat ds"
    using v assembled_pieces [OF assms(2), of 0] by (simp add: view_of_def)
  have r: "commit_result sz (part st s' c) = Inr sz" by (simp add: commit_result_def a assms(10))
  have op: "is_open st s' c" using v by (simp add: view_of_def)
  show "fst (Commit st c sz s') = Inr sz" using commit_view(3) [OF ok op, of sz] r by simp
  show "Serve st c (snd (Commit st c sz s')) = Some (concat ds)"
    using commit_view(2) [OF ok, of c sz c] op r a by (simp add: view_of_def)
qed

text \<open>
  C39: an archive cut into pieces is assembled again: uploaded in whatever order, with whatever
  operations on other blobs in between, the pieces commit to the archive, of which the size is the
  size announced, and the archive is what the blob serves.
\<close>

theorem upload_roundtrip:
  assumes "store_ok st s" and "list_all (\<lambda>d. d \<noteq> []) ds" and "ds \<noteq> []" and "int (length (concat ds)) < 2 ^ 63"
    and "mset ups = mset (pieces_at 0 ds)" and "\<not> is_open st s c"
    and "list_all blob_op_ok ops" and "filter (\<lambda>x. blob_target x = c) ops = List.map (\<lambda>(i, d). BWrite c i (d, None)) ups"
    and "s' = fold (run_blob st) ops s" and "sz = int (length (concat ds))"
  shows "fst (Commit st c sz s') = Inr sz \<and> Serve st c (snd (Commit st c sz s')) = Some (concat ds)"
  by (rule upload_commit [OF assms])

theorem upload_roundtrip_witness:
  "Serve demo_storage 1 (snd (Commit demo_storage 1 4 (fold (run_blob demo_storage)
     [BWrite 1 2 (''cd'', None), BWrite 2 0 (''x'', None), BWrite 1 0 (''ab'', None)] empty_fs))) = Some ''abcd''"
proof -
  let ?ops = "[BWrite 1 2 (''cd'', None), BWrite 2 0 (''x'', None), BWrite 1 0 (''ab'', None)]"
  have o: "\<not> is_open demo_storage empty_fs 1" by (simp add: is_open_def tempDir_def empty_fs_def demo_storage_def)
  have m: "mset [(2, ''cd''), (0, ''ab'')] = mset (pieces_at 0 [''ab'', ''cd''])" by simp
  have "list_all blob_op_ok ?ops" by (simp add: good_offset_def)
  from upload_roundtrip [OF empty_store_ok _ _ _ m o this _ refl refl] show ?thesis by simp
qed

text \<open>
  Staged blocks are committed in the order of the block list, those it does not name are left
  out, and the order in which they were staged does not matter.
\<close>

theorem block_list_order:
  assumes "store_ok st s" and "is_open st s c" and "part st s c = (\<lambda>_. None)" and "distinct (List.map (sha256 st) bs)"
    and "int (length bs) \<le> 2 ^ 63"
    and "list_all (\<lambda>b. os_ReadFile (blockName st c b) s = Some (cont b)) bs"
    and "sz = int (length (concat (List.map cont bs)))"
  shows "\<exists>s'. OrderBlocks st c bs s = (None, s') \<and>
    Commit st c sz s' = (Inr sz, snd (Commit st c sz s')) \<and>
    Serve st c (snd (Commit st c sz s')) = Some (concat (List.map cont bs))"
proof -
  obtain s' where s': "order_blocks st c 0 bs s = (None, s')"
    and at: "\<And>k. k < length bs \<Longrightarrow> os_ReadFile (tempName st c (int k)) s' = Some (cont (bs ! k))"
    and out: "\<And>j. good_offset j \<Longrightarrow> int (length bs) \<le> j \<Longrightarrow> os_ReadFile (tempName st c j) s' = os_ReadFile (tempName st c j) s"
    using order_blocks_spec [OF assms(4) _ assms(6), of 0] assms(5) by auto
  have ok: "store_ok st s'" "is_open st s' c"
    using order_blocks_frame [OF assms(1,2) _ s'] assms(5) by auto
  let ?p = "part st s' c" and ?n = "length bs"
  have p: "?p j = (if 0 \<le> j \<and> j < int ?n then Some (cont (bs ! nat j)) else None)" for j
  proof (cases "0 \<le> j \<and> j < int ?n")
    case True
    then have "good_offset j" using assms(5) by (simp add: good_offset_def)
    with True at [of "nat j"] show ?thesis by (auto simp: part_def)
  next
    case False
    then have "good_offset j \<Longrightarrow> int ?n \<le> j" by (auto simp: good_offset_def)
    moreover have "part st s c j = None" using assms(3) by simp
    ultimately show ?thesis using False out [of j] by (auto simp: part_def)
  qed
  have d: "dom ?p = set (List.map int [0..<?n])"
    by (auto simp: dom_def p image_iff split: if_splits) (metis atLeastLessThan_iff int_nat_eq nat_int nat_less_iff zero_le)
  have "sorted_list_of_set (dom ?p) = List.map int [0..<?n]"
    unfolding d by (rule sorted_list_of_set.idem_if_sorted_distinct) (simp_all add: distinct_map sorted_map)
  then have "assembled ?p = concat (List.map (\<lambda>k. the (?p (int k))) [0..<?n])"
    by (simp add: assembled_def comp_def)
  also have "List.map (\<lambda>k. the (?p (int k))) [0..<?n] = List.map (\<lambda>k. cont (bs ! k)) [0..<?n]"
    by (rule map_cong) (auto simp: p)
  also have "List.map (\<lambda>k. cont (bs ! k)) [0..<?n] = List.map cont bs"
    using map_nth [of bs] by (metis (no_types, lifting) comp_def list.map_comp map_cong)
  finally have a: "assembled ?p = concat (List.map cont bs)" .
  have r: "commit_result sz ?p = Inr sz" by (simp add: commit_result_def a assms(7))
  have "fst (Commit st c sz s') = Inr sz" using commit_view(3) [OF ok, of sz] r by simp
  moreover have "Serve st c (snd (Commit st c sz s')) = Some (concat (List.map cont bs))"
    using commit_view(2) [OF ok(1), of c sz c] ok(2) r a by (simp add: view_of_def)
  ultimately show ?thesis using s' by (simp add: OrderBlocks_def prod_eq_iff)
qed

theorem block_list_order_witness:
  "\<exists>s s'. OrderBlocks demo_storage 1 [''A'', ''B''] s = (None, s') \<and>
     Serve demo_storage 1 (snd (Commit demo_storage 1 3 s')) = Some ''xyz''"
proof -
  let ?st = demo_storage
  let ?s1 = "snd (WriteBlock ?st 1 ''B'' (''z'', None) empty_fs)"
  let ?s2 = "snd (WriteBlock ?st 1 ''A'' (''xy'', None) ?s1)"
  note w1 = write_block [where st = ?st and c = 1 and b = "''B''" and rd = "(''z'', None)", OF empty_store_ok refl]
  note w2 = write_block [where st = ?st and c = 1 and b = "''A''" and rd = "(''xy'', None)", OF w1(1) refl]
  let ?cont = "\<lambda>b. if b = ''A'' then ''xy'' else ''z''"
  have p: "part ?st ?s2 1 = (\<lambda>_. None)"
    unfolding w2(3) w1(3) by (rule ext) (simp add: part_def empty_fs_def os_ReadFile_def)
  have d: "distinct (List.map (sha256 ?st) [''A'', ''B''])" by (simp add: demo_storage_def)
  have c: "list_all (\<lambda>b. os_ReadFile (blockName ?st 1 b) ?s2 = Some (?cont b)) [''A'', ''B'']"
    by (simp only: list.pred_inject w2(4) w1(4)) (simp add: demo_storage_def)
  have l: "int (length [''A'', ''B'']) \<le> 2 ^ 63" by simp
  have z: "(3 :: int) = int (length (concat (List.map ?cont [''A'', ''B''])))" by simp
  from block_list_order [OF w2(1,2) p d l c z] show ?thesis by auto
qed

end
