(* ===== verification/CacheHandler.thy ===== *)
theory CacheHandler
  imports CacheStorage Masker
begin

text \<open>
  The cache server, \<^verbatim>\<open>act/artifactcache\<close> (\<^verbatim>\<open>handler.go\<close>, \<^verbatim>\<open>handler_v2.go\<close>, \<^verbatim>\<open>model.go\<close> and the routing
  decision of \<^verbatim>\<open>results.go\<close>): the credentials of jobs, signed URLs, the cache entries and both versions
  of the API. The document store (\<^verbatim>\<open>bolthold\<close>) is an argument, a record of its operations; so are the
  keyed hash of the signatures, the decoded request bodies and the clock. A handler maps the request
  and the server's state to a response and the next state.
\<close>

section \<open>Entries\<close>

record cache =
  ID :: nat
  cRepo :: string
  cKey :: string
  cVersion :: string
  cSize :: int
  Complete :: bool
  UsedAt :: int
  CreatedAt :: int

record cache_request =
  rKey :: string
  rVersion :: string
  rSize :: int

definition ToCache :: "cache_request \<Rightarrow> cache" where
  "ToCache c = \<lparr>ID = 0, cRepo = [], cKey = rKey c, cVersion = rVersion c,
     cSize = (if rSize c = 0 then -1 else rSize c), Complete = False, UsedAt = 0, CreatedAt = 0\<rparr>"

section \<open>The document store\<close>

text \<open>
  The operations of the store the code calls. \<^verbatim>\<open>db_find_one\<close> is \<^verbatim>\<open>FindOne\<close> with its result sorted by
  a field and reversed; \<^verbatim>\<open>db_aggregate\<close> is \<^verbatim>\<open>FindAggregate\<close> over repository, key and version with each
  group sorted by its time of creation.
\<close>

record 'db store_ops =
  db_get :: "'db \<Rightarrow> nat \<Rightarrow> cache option"
  db_insert :: "cache \<Rightarrow> 'db \<Rightarrow> nat \<times> 'db"
  db_update :: "nat \<Rightarrow> cache \<Rightarrow> 'db \<Rightarrow> 'db"
  db_delete :: "nat \<Rightarrow> 'db \<Rightarrow> 'db"
  db_find :: "(cache \<Rightarrow> bool) \<Rightarrow> 'db \<Rightarrow> cache list"
  db_find_one :: "(cache \<Rightarrow> bool) \<Rightarrow> (cache \<Rightarrow> int) \<Rightarrow> 'db \<Rightarrow> cache option"
  db_aggregate :: "(cache \<Rightarrow> bool) \<Rightarrow> 'db \<Rightarrow> cache list list"

definition entry_group :: "cache \<Rightarrow> string \<times> string \<times> string" where
  "entry_group c = (cRepo c, cKey c, cVersion c)"

text \<open>What the code relies on: the documented behaviour of the store, over the entries it holds.\<close>

definition store_laws :: "'db store_ops \<Rightarrow> ('db \<Rightarrow> nat \<Rightarrow> cache option) \<Rightarrow> bool" where
  "store_laws db entries =
     ((\<forall>d i. db_get db d i = entries d i) \<and>
      (\<forall>d c. entries d (fst (db_insert db c d)) = None \<and>
         entries (snd (db_insert db c d)) = (entries d)(fst (db_insert db c d) := Some c)) \<and>
      (\<forall>d i c. entries d i \<noteq> None \<longrightarrow> entries (db_update db i c d) = (entries d)(i := Some c)) \<and>
      (\<forall>d i. entries (db_delete db i d) = (entries d)(i := None)) \<and>
      (\<forall>d P c. c \<in> set (db_find db P d) \<longleftrightarrow> P c \<and> (\<exists>i. entries d i = Some c)) \<and>
      (\<forall>d P f. case db_find_one db P f d of
         None \<Rightarrow> (\<forall>i c. entries d i = Some c \<longrightarrow> \<not> P c)
       | Some c \<Rightarrow> P c \<and> (\<exists>i. entries d i = Some c) \<and> (\<forall>i e. entries d i = Some e \<longrightarrow> P e \<longrightarrow> f e \<le> f c)) \<and>
      (\<forall>d P g. g \<in> set (db_aggregate db P d) \<longrightarrow>
         sorted (map CreatedAt g) \<and> distinct (map ID g) \<and>
         (\<exists>k. set g = {c. P c \<and> entry_group c = k \<and> (\<exists>i. entries d i = Some c)})))"

section \<open>Credentials\<close>

record JobCredential =
  Repo :: string
  Results :: string
  InsecureTLS :: bool
  PublicURL :: string

record credEntry =
  cred :: JobCredential
  refs :: int

record 'db handler =
  hdb :: 'db
  hfs :: fs
  hstorage :: storage
  open_err :: "go_error option"
  creds :: "(string \<times> credEntry) list"
  internalSecret :: string
  secret :: string
  externalURL :: string
  gcAt :: int

definition RegisterJob :: "string \<Rightarrow> JobCredential \<Rightarrow> 'db handler \<Rightarrow> 'db handler" where
  "RegisterJob token c h =
     (if token = [] then h
      else case map_of (creds h) token of
        Some existing \<Rightarrow> h\<lparr>creds := AList.update token (existing\<lparr>refs := refs existing + 1\<rparr>) (creds h)\<rparr>
      | None \<Rightarrow> h\<lparr>creds := AList.update token \<lparr>cred = c, refs = 1\<rparr> (creds h)\<rparr>)"

definition RevokeJob :: "string \<Rightarrow> 'db handler \<Rightarrow> 'db handler" where
  "RevokeJob token h =
     (if token = [] then h
      else case map_of (creds h) token of
        Some entry \<Rightarrow>
          (let entry = entry\<lparr>refs := refs entry - 1\<rparr>
           in if refs entry \<le> 0 then h\<lparr>creds := AList.delete token (creds h)\<rparr>
              else h\<lparr>creds := AList.update token entry (creds h)\<rparr>)
      | None \<Rightarrow> h)"

definition lookupCredential :: "string \<Rightarrow> 'db handler \<Rightarrow> JobCredential option" where
  "lookupCredential token h = map_option cred (map_of (creds h) token)"

definition bearerToken :: "string \<Rightarrow> string" where
  "bearerToken auth =
     (let pfx = ''Bearer ''
      in if length pfx < length auth \<and> equal_fold (take (length pfx) auth) pfx
         then drop (length pfx) auth else [])"

section \<open>URLs and signatures\<close>

definition apiPath :: string where "apiPath = ''/_apis/artifactcache''"
definition blobPath :: string where "blobPath = apiPath @ ''/blobs''"
definition blobUploadPurpose :: string where "blobUploadPurpose = ''upload:''"
definition artifactURLTTL :: int where "artifactURLTTL = 10 * 60"
definition blobUploadURLTTL :: int where "blobUploadURLTTL = 60 * 60"

definition baseURL :: "JobCredential \<Rightarrow> 'db handler \<Rightarrow> string" where
  "baseURL c h =
     (let base = trim_right [CHR ''/''] (PublicURL c) in if base \<noteq> [] then base else externalURL h)"

definition ResultsURL :: "JobCredential \<Rightarrow> 'db handler \<Rightarrow> string" where
  "ResultsURL c h = (if Results c = [] then [] else baseURL c h)"

text \<open>\<^verbatim>\<open>mac\<close> is HMAC-SHA256 in hexadecimal: the key, then the message.\<close>

definition signed_message :: "string \<Rightarrow> int \<Rightarrow> int \<Rightarrow> string" where
  "signed_message purpose cacheID expiry = purpose @ itoa cacheID @ '':'' @ itoa expiry"

definition computeSignature ::
  "(string \<Rightarrow> string \<Rightarrow> string) \<Rightarrow> string \<Rightarrow> int \<Rightarrow> int \<Rightarrow> 'db handler \<Rightarrow> string" where
  "computeSignature mac purpose cacheID expiry h = mac (secret h) (signed_message purpose cacheID expiry)"

definition signedURL ::
  "(string \<Rightarrow> string \<Rightarrow> string) \<Rightarrow> JobCredential \<Rightarrow> string \<Rightarrow> string \<Rightarrow> nat \<Rightarrow> int \<Rightarrow> 'db handler \<Rightarrow> string" where
  "signedURL mac c path purpose cacheID expiry h =
     baseURL c h @ path @ ''/'' @ nat_digits cacheID @ ''?exp='' @ QueryEscape (itoa expiry) @ ''&sig=''
       @ QueryEscape (computeSignature mac purpose (i64 (int cacheID)) expiry h)"

definition signedArtifactURL ::
  "(string \<Rightarrow> string \<Rightarrow> string) \<Rightarrow> JobCredential \<Rightarrow> nat \<Rightarrow> int \<Rightarrow> 'db handler \<Rightarrow> string" where
  "signedArtifactURL mac c cacheID expiry h = signedURL mac c (apiPath @ ''/artifacts'') [] cacheID expiry h"

section \<open>Responses\<close>

datatype body =
    BEmpty
  | BError string
  | BHit string string
  | BCacheId nat
  | BNotOk
  | BUploadURL string
  | BFinalized string
  | BDownload string string
  | BTwirp string string
  | BResultsURL string
  | BFile "string option"
  | BForward string bool

type_synonym response = "nat \<times> body"

definition err_response :: "nat \<Rightarrow> go_error \<Rightarrow> response" where
  "err_response code e = (code, BError (error_string e))"

definition twirpInternal :: string where "twirpInternal = ''internal''"

definition twirpError :: "string \<Rightarrow> go_error \<Rightarrow> response" where
  "twirpError code e =
     (if code = twirpInternal then 500 else 400, BTwirp code (error_string e))"

definition twirpNotOK :: response where "twirpNotOK = (200, BNotOk)"

definition cache_error :: "int \<Rightarrow> string \<Rightarrow> go_error" where
  "cache_error i what = Errorf (''cache '' @ itoa i @ '': '' @ what)"

definition already_complete :: "cache \<Rightarrow> go_error" where
  "already_complete c = Errorf (''cache '' @ nat_digits (ID c) @ '' '' @ gq (cKey c) @ '': already complete'')"

section \<open>Entries of the store\<close>

text \<open>Keys are never negative, so a negative one is found nowhere.\<close>

definition get_entry :: "'db store_ops \<Rightarrow> 'db \<Rightarrow> int \<Rightarrow> cache option" where
  "get_entry db d i = (if i < 0 then None else db_get db d (nat i))"

definition findExactCache ::
  "'db store_ops \<Rightarrow> 'db \<Rightarrow> string \<Rightarrow> string \<Rightarrow> string \<Rightarrow> bool \<Rightarrow> cache option" where
  "findExactCache db d repo key version cmpl =
     db_find_one db (\<lambda>c. cRepo c = repo \<and> cKey c = key \<and> cVersion c = version \<and> Complete c = cmpl)
       (if cmpl then CreatedAt else UsedAt) d"

text \<open>A quoted prefix always compiles, and matches the keys that start with it.\<close>

fun findCache :: "'db store_ops \<Rightarrow> 'db \<Rightarrow> string \<Rightarrow> string list \<Rightarrow> string \<Rightarrow> cache option" where
  "findCache db d repo [] version = None"
| "findCache db d repo (pfx # keys) version =
     (case findExactCache db d repo pfx version True of
        Some exact \<Rightarrow> Some exact
      | None \<Rightarrow>
          (case db_find_one db (\<lambda>c. cRepo c = repo \<and> has_prefix pfx (cKey c) \<and> cVersion c = version \<and> Complete c)
              CreatedAt d of
             Some c \<Rightarrow> Some c
           | None \<Rightarrow> findCache db d repo keys version))"

definition lookupCache ::
  "'db store_ops \<Rightarrow> string \<Rightarrow> string list \<Rightarrow> string \<Rightarrow> 'db handler \<Rightarrow> cache option \<times> 'db handler" where
  "lookupCache db repo keys version h =
     (case findCache db (hdb h) repo keys version of
        None \<Rightarrow> (None, h)
      | Some c \<Rightarrow>
          if Exist (hstorage h) (ID c) (hfs h) then (Some c, h)
          else (None, h\<lparr>hdb := db_delete db (ID c) (hdb h)\<rparr>))"

definition insertCache :: "'db store_ops \<Rightarrow> cache \<Rightarrow> 'db handler \<Rightarrow> cache \<times> 'db handler" where
  "insertCache db c h =
     (case db_insert db c (hdb h) of (i, d) \<Rightarrow>
        (let c = c\<lparr>ID := i\<rparr> in (c, h\<lparr>hdb := db_update db i c d\<rparr>)))"

definition touchCache ::
  "'db store_ops \<Rightarrow> int \<Rightarrow> nat \<Rightarrow> bool \<Rightarrow> 'db handler \<Rightarrow> go_error option \<times> 'db handler" where
  "touchCache db now i requireIncomplete h =
     (case open_err h of
        Some e \<Rightarrow> (Some e, h)
      | None \<Rightarrow>
          (case db_get db (hdb h) i of
             None \<Rightarrow> (None, h)
           | Some c \<Rightarrow>
               if requireIncomplete \<and> Complete c then (Some (cache_error (int i) ''already complete''), h)
               else (None, h\<lparr>hdb := db_update db (ID c) (c\<lparr>UsedAt := now\<rparr>) (hdb h)\<rparr>)))"

definition commitCache :: "'db store_ops \<Rightarrow> cache \<Rightarrow> 'db handler \<Rightarrow> go_error option \<times> 'db handler" where
  "commitCache db c h =
     (case Commit (hstorage h) (ID c) (cSize c) (hfs h) of (r, s) \<Rightarrow>
        (let h = h\<lparr>hfs := s\<rparr>
         in case r of
              Inl e \<Rightarrow> (Some e, h)
            | Inr written \<Rightarrow>
                (let c = c\<lparr>cSize := written, Complete := True\<rparr>
                 in case open_err h of
                      Some e \<Rightarrow> (Some e, h)
                    | None \<Rightarrow> (None, h\<lparr>hdb := db_update db (ID c) c (hdb h)\<rparr>))))"

section \<open>Version one of the API\<close>

definition find_h ::
  "(string \<Rightarrow> string \<Rightarrow> string) \<Rightarrow> 'db store_ops \<Rightarrow> int \<Rightarrow> JobCredential \<Rightarrow> string \<Rightarrow> string \<Rightarrow> 'db handler \<Rightarrow>
   response \<times> 'db handler" where
  "find_h mac db now cr keys version h =
     (case open_err h of
        Some e \<Rightarrow> (err_response 500 e, h)
      | None \<Rightarrow>
          (case lookupCache db (Repo cr) (split_at CHR '','' keys) version h of
             (None, h) \<Rightarrow> ((204, BEmpty), h)
           | (Some c, h) \<Rightarrow> ((200, BHit (signedArtifactURL mac cr (ID c) (now + artifactURLTTL) h) (cKey c)), h)))"

definition reserve ::
  "'db store_ops \<Rightarrow> int \<Rightarrow> JobCredential \<Rightarrow> go_error + cache_request \<Rightarrow> 'db handler \<Rightarrow> response \<times> 'db handler" where
  "reserve db now cr req h =
     (case req of
        Inl e \<Rightarrow> (err_response 400 e, h)
      | Inr api \<Rightarrow>
          (case open_err h of
             Some e \<Rightarrow> (err_response 500 e, h)
           | None \<Rightarrow>
               (case insertCache db ((ToCache api)\<lparr>cRepo := Repo cr, CreatedAt := now, UsedAt := now\<rparr>) h of
                  (c, h) \<Rightarrow> ((200, BCacheId (ID c)), h))))"

definition parseContentRange :: "string \<Rightarrow> go_error + int \<times> int" where
  "parseContentRange s =
     (case str_cut (trim_prefix ''bytes '' s) ''/'' of (s, _, _) \<Rightarrow>
        (case str_cut s ''-'' of (s1, s2, _) \<Rightarrow>
           (case parse_int s1 of
              None \<Rightarrow> Inl (Errorf (''parse '' @ gq s))
            | Some start \<Rightarrow>
                (case parse_int s2 of
                   None \<Rightarrow> Inl (Errorf (''parse '' @ gq s))
                 | Some stop \<Rightarrow> Inr (start, stop)))))"

text \<open>The checks \<^verbatim>\<open>upload\<close> and \<^verbatim>\<open>commit\<close> share: the entry, or the response that refuses.\<close>

definition reserved_entry ::
  "'db store_ops \<Rightarrow> JobCredential \<Rightarrow> string \<Rightarrow> 'db handler \<Rightarrow> response + int \<times> cache" where
  "reserved_entry db cr id_param h =
     (case parse_int id_param of
        None \<Rightarrow> Inl (400, BError (''parse '' @ gq id_param))
      | Some i \<Rightarrow>
          (case open_err h of
             Some e \<Rightarrow> Inl (err_response 500 e)
           | None \<Rightarrow>
               (case get_entry db (hdb h) i of
                  None \<Rightarrow> Inl (err_response 400 (cache_error i ''not reserved''))
                | Some c \<Rightarrow>
                    if cRepo c \<noteq> Repo cr then Inl (err_response 403 (cache_error i ''forbidden''))
                    else if Complete c then Inl (err_response 400 (already_complete c))
                    else Inr (i, c))))"

definition upload ::
  "'db store_ops \<Rightarrow> int \<Rightarrow> JobCredential \<Rightarrow> string \<Rightarrow> string \<Rightarrow> reader \<Rightarrow> 'db handler \<Rightarrow> response \<times> 'db handler" where
  "upload db now cr id_param content_range rd h =
     (case reserved_entry db cr id_param h of
        Inl r \<Rightarrow> (r, h)
      | Inr (i, c) \<Rightarrow>
          (case parseContentRange content_range of
             Inl e \<Rightarrow> (err_response 400 e, h)
           | Inr (start, stop) \<Rightarrow>
               (case CacheStorage.Write (hstorage h) (ID c) start rd (hfs h) of
                  (Some e, s) \<Rightarrow> (err_response 500 e, h\<lparr>hfs := s\<rparr>)
                | (None, s) \<Rightarrow> ((200, BEmpty), snd (touchCache db now (nat i) False (h\<lparr>hfs := s\<rparr>))))))"

definition commit_h ::
  "'db store_ops \<Rightarrow> JobCredential \<Rightarrow> string \<Rightarrow> 'db handler \<Rightarrow> response \<times> 'db handler" where
  "commit_h db cr id_param h =
     (case reserved_entry db cr id_param h of
        Inl r \<Rightarrow> (r, h)
      | Inr (i, c) \<Rightarrow>
          (case commitCache db c h of
             (Some e, h) \<Rightarrow> (err_response 500 e, h)
           | (None, h) \<Rightarrow> ((200, BEmpty), h)))"

definition get_h :: "'db store_ops \<Rightarrow> int \<Rightarrow> string \<Rightarrow> 'db handler \<Rightarrow> response \<times> 'db handler" where
  "get_h db now id_param h =
     (case parse_int id_param of
        None \<Rightarrow> ((400, BError (''parse '' @ gq id_param)), h)
      | Some i \<Rightarrow>
          (let n = nat (i mod 2 ^ 64); h = snd (touchCache db now n False h)
           in case Serve (hstorage h) n (hfs h) of
                None \<Rightarrow> ((404, BFile None), h)
              | Some data \<Rightarrow> ((200, BFile (Some data)), h)))"

definition clean_h :: "'db handler \<Rightarrow> response \<times> 'db handler" where
  "clean_h h = ((200, BEmpty), h)"

section \<open>Collecting old entries\<close>

definition keepUsed :: int where "keepUsed = 30 * 24 * 3600"
definition keepUnused :: int where "keepUnused = 7 * 24 * 3600"
definition keepTemp :: int where "keepTemp = 5 * 60"
definition keepOld :: int where "keepOld = 5 * 60"

definition gc_delete :: "'db store_ops \<Rightarrow> cache \<Rightarrow> 'db handler \<Rightarrow> 'db handler" where
  "gc_delete db c h = h\<lparr>hfs := Remove (hstorage h) (ID c) (hfs h), hdb := db_delete db (ID c) (hdb h)\<rparr>"

definition gc_phase :: "'db store_ops \<Rightarrow> (cache \<Rightarrow> bool) \<Rightarrow> 'db handler \<Rightarrow> 'db handler" where
  "gc_phase db P h = fold (gc_delete db) (db_find db P (hdb h)) h"

definition gc_group :: "'db store_ops \<Rightarrow> int \<Rightarrow> cache list \<Rightarrow> 'db handler \<Rightarrow> 'db handler" where
  "gc_group db now g h =
     (if length g \<le> 1 then h
      else fold (\<lambda>c h. if now - UsedAt c < keepOld then h else gc_delete db c h) (butlast g) h)"

definition gcCache :: "'db store_ops \<Rightarrow> int \<Rightarrow> 'db handler \<Rightarrow> 'db handler" where
  "gcCache db now h =
     (if now - gcAt h < 3600 then h
      else (let h = h\<lparr>gcAt := now\<rparr>
            in case open_err h of
                 Some e \<Rightarrow> h
               | None \<Rightarrow>
                   (let h = gc_phase db (\<lambda>c. UsedAt c < now - keepTemp \<and> \<not> Complete c) h;
                        h = gc_phase db (\<lambda>c. UsedAt c < now - keepUnused) h;
                        h = gc_phase db (\<lambda>c. CreatedAt c < now - keepUsed) h
                    in fold (gc_group db now) (db_aggregate db Complete (hdb h)) h)))"

section \<open>Authentication\<close>

text \<open>The collection that follows a handled request runs on its own; here it runs behind it.\<close>

definition bearerAuth ::
  "'db store_ops \<Rightarrow> int \<Rightarrow> string \<Rightarrow> (JobCredential \<Rightarrow> 'db handler \<Rightarrow> response \<times> 'db handler) \<Rightarrow> 'db handler \<Rightarrow>
   response \<times> 'db handler" where
  "bearerAuth db now auth handle h =
     (let token = bearerToken auth
      in if token = [] then ((401, BError ''missing bearer token''), h)
         else case lookupCredential token h of
                None \<Rightarrow> ((401, BError ''unknown bearer token''), h)
              | Some c \<Rightarrow> (case handle c h of (r, h) \<Rightarrow> (r, gcCache db now h)))"

definition signedAuth ::
  "(string \<Rightarrow> string \<Rightarrow> string) \<Rightarrow> 'db store_ops \<Rightarrow> int \<Rightarrow> string \<Rightarrow> string \<Rightarrow> string \<Rightarrow> string \<Rightarrow>
   ('db handler \<Rightarrow> response \<times> 'db handler) \<Rightarrow> 'db handler \<Rightarrow> response \<times> 'db handler" where
  "signedAuth mac db now purpose id_param expStr sig handle h =
     (case parse_int id_param of
        None \<Rightarrow> ((400, BError (''parse '' @ gq id_param)), h)
      | Some i \<Rightarrow>
          if expStr = [] \<or> sig = [] then ((401, BError ''missing signature''), h)
          else (case parse_int expStr of
                  None \<Rightarrow> ((401, BError ''invalid expiry''), h)
                | Some expiry \<Rightarrow>
                    if expiry < now then ((401, BError ''signature expired''), h)
                    else if sig \<noteq> computeSignature mac purpose i expiry h then ((401, BError ''bad signature''), h)
                    else (case handle h of (r, h) \<Rightarrow> (r, gcCache db now h))))"

definition internalAuth ::
  "string \<Rightarrow> ('db handler \<Rightarrow> response \<times> 'db handler) \<Rightarrow> 'db handler \<Rightarrow> response \<times> 'db handler" where
  "internalAuth auth handle h =
     (if internalSecret h = [] then ((404, BEmpty), h)
      else (let token = bearerToken auth
            in if token = [] \<or> token \<noteq> internalSecret h then ((401, BError ''internal: bad secret''), h)
               else handle h))"

definition internalRegister ::
  "go_error + string \<times> JobCredential \<Rightarrow> 'db handler \<Rightarrow> response \<times> 'db handler" where
  "internalRegister bdy h =
     (case bdy of
        Inl e \<Rightarrow> (err_response 400 e, h)
      | Inr (token, c) \<Rightarrow>
          if token = [] then ((400, BError ''token is required''), h)
          else ((200, BResultsURL (ResultsURL c h)), RegisterJob token c h))"

definition internalRevoke :: "go_error + string \<Rightarrow> 'db handler \<Rightarrow> response \<times> 'db handler" where
  "internalRevoke bdy h =
     (case bdy of
        Inl e \<Rightarrow> (err_response 400 e, h)
      | Inr token \<Rightarrow>
          if token = [] then ((400, BError ''token is required''), h) else ((200, BEmpty), RevokeJob token h))"

section \<open>Version two of the API\<close>

definition v2CreateCacheEntry ::
  "(string \<Rightarrow> string \<Rightarrow> string) \<Rightarrow> 'db store_ops \<Rightarrow> int \<Rightarrow> JobCredential \<Rightarrow> go_error + string \<times> string \<Rightarrow> 'db handler \<Rightarrow>
   response \<times> 'db handler" where
  "v2CreateCacheEntry mac db now cr req h =
     (case req of
        Inl e \<Rightarrow> (twirpError ''malformed_request'' e, h)
      | Inr (key, version) \<Rightarrow>
          if key = [] \<or> version = [] then (twirpError ''invalid_argument'' (Errorf ''key and version are required''), h)
          else (case open_err h of
                  Some e \<Rightarrow> (twirpError twirpInternal e, h)
                | None \<Rightarrow>
                    (case findExactCache db (hdb h) (Repo cr) key version True of
                       Some e \<Rightarrow> (twirpNotOK, h)
                     | None \<Rightarrow>
                         (case insertCache db \<lparr>ID = 0, cRepo = Repo cr, cKey = key, cVersion = version, cSize = -1,
                              Complete = False, UsedAt = now, CreatedAt = now\<rparr> h of
                            (c, h) \<Rightarrow>
                              ((200, BUploadURL (signedURL mac cr blobPath blobUploadPurpose (ID c)
                                  (now + blobUploadURLTTL) h)), h)))))"

text \<open>The size of a finalize request under either spelling, the proto's first; a number that does not parse is zero.\<close>

definition finalize_size :: "string \<Rightarrow> string \<Rightarrow> int" where
  "finalize_size SizeBytes SizeBytesCamel =
     (case parse_int (if SizeBytes \<noteq> [] then SizeBytes else SizeBytesCamel) of None \<Rightarrow> 0 | Some n \<Rightarrow> n)"

definition v2FinalizeCacheEntryUpload ::
  "'db store_ops \<Rightarrow> JobCredential \<Rightarrow> go_error + string \<times> string \<times> string \<times> string \<Rightarrow> 'db handler \<Rightarrow>
   response \<times> 'db handler" where
  "v2FinalizeCacheEntryUpload db cr req h =
     (case req of
        Inl e \<Rightarrow> (twirpError ''malformed_request'' e, h)
      | Inr (key, version, sizeBytes, sizeBytesCamel) \<Rightarrow>
          (case open_err h of
             Some e \<Rightarrow> (twirpError twirpInternal e, h)
           | None \<Rightarrow>
               (case findExactCache db (hdb h) (Repo cr) key version False of
                  None \<Rightarrow> (twirpNotOK, h)
                | Some c \<Rightarrow>
                    (case commitCache db (c\<lparr>cSize := finalize_size sizeBytes sizeBytesCamel\<rparr>) h of
                       (Some e, h) \<Rightarrow> (twirpNotOK, h)
                     | (None, h) \<Rightarrow> ((200, BFinalized (nat_digits (ID c))), h)))))"

definition v2_keys :: "string \<Rightarrow> string list \<Rightarrow> string list \<Rightarrow> string list" where
  "v2_keys key restoreKeys restoreKeysCamel =
     key # (if restoreKeys = [] then restoreKeysCamel else restoreKeys)"

definition v2GetCacheEntryDownloadURL ::
  "(string \<Rightarrow> string \<Rightarrow> string) \<Rightarrow> 'db store_ops \<Rightarrow> int \<Rightarrow> JobCredential \<Rightarrow>
   go_error + string \<times> string \<times> string list \<times> string list \<Rightarrow> 'db handler \<Rightarrow> response \<times> 'db handler" where
  "v2GetCacheEntryDownloadURL mac db now cr req h =
     (case req of
        Inl e \<Rightarrow> (twirpError ''malformed_request'' e, h)
      | Inr (key, version, restoreKeys, restoreKeysCamel) \<Rightarrow>
          (case open_err h of
             Some e \<Rightarrow> (twirpError twirpInternal e, h)
           | None \<Rightarrow>
               (case lookupCache db (Repo cr) (v2_keys key restoreKeys restoreKeysCamel) version h of
                  (None, h) \<Rightarrow> (twirpNotOK, h)
                | (Some c, h) \<Rightarrow>
                    ((200, BDownload (signedArtifactURL mac cr (ID c) (now + artifactURLTTL) h) (cKey c)), h))))"

text \<open>What the query and the body of a blob upload ask for; a block list that does not decode is an error.\<close>

datatype blob_request = Block string reader | BlockList "go_error + string list" | Whole reader

definition v2UploadBlob ::
  "'db store_ops \<Rightarrow> int \<Rightarrow> string \<Rightarrow> blob_request \<Rightarrow> 'db handler \<Rightarrow> response \<times> 'db handler" where
  "v2UploadBlob db now id_param req h =
     (case parse_uint id_param of
        None \<Rightarrow> ((400, BError (''parse '' @ gq id_param)), h)
      | Some i \<Rightarrow>
          (case touchCache db now i True h of
             (Some e, h) \<Rightarrow> (err_response 400 e, h)
           | (None, h) \<Rightarrow>
               (let write = (\<lambda>(e, s).
                  ((case e of Some err \<Rightarrow> err_response 500 err | None \<Rightarrow> (201, BEmpty)), h\<lparr>hfs := s\<rparr>))
                in case req of
                     Block blockID rd \<Rightarrow>
                       if blockID = [] then ((400, BError ''missing blockid''), h)
                       else write (WriteBlock (hstorage h) i blockID rd (hfs h))
                   | BlockList (Inl e) \<Rightarrow> (err_response 400 (Wrap (''malformed block list: '' @ error_string e) e), h)
                   | BlockList (Inr latest) \<Rightarrow> write (OrderBlocks (hstorage h) i latest (hfs h))
                   | Whole rd \<Rightarrow> write (CacheStorage.Write (hstorage h) i 0 rd (hfs h)))))"

section \<open>Forwarding the artifact service\<close>

definition artifactServicePath :: string where
  "artifactServicePath = ''/twirp/github.actions.results.api.v1.ArtifactService/''"

text \<open>Where a request no route takes goes to, and whether its certificate is checked; \<^verbatim>\<open>parse\<close> is \<^verbatim>\<open>url.Parse\<close>.\<close>

definition forwardOrNotFound ::
  "(string \<Rightarrow> string option) \<Rightarrow> string \<Rightarrow> string \<Rightarrow> 'db handler \<Rightarrow> response" where
  "forwardOrNotFound parse auth url_path h =
     (case lookupCredential (bearerToken auth) h of
        None \<Rightarrow> (404, BEmpty)
      | Some c \<Rightarrow>
          if Results c = [] \<or> \<not> has_prefix artifactServicePath url_path then (404, BEmpty)
          else (case parse (trim_suffix ''/'' (Results c)) of
                  None \<Rightarrow> (502, BEmpty)
                | Some target \<Rightarrow> (200, BForward target (InsecureTLS c))))"

section \<open>The laws of the store, one by one\<close>

lemma law_get: "store_laws db entries \<Longrightarrow> db_get db d i = entries d i"
  by (drule store_laws_def [THEN iffD1], drule conjunct1, drule spec, drule spec, assumption)

lemma law_insert:
  assumes "store_laws db entries" and "db_insert db c d = (i, d')"
  shows "entries d i = None \<and> entries d' = (entries d)(i := Some c)"
proof -
  from assms(1) [unfolded store_laws_def, THEN conjunct2, THEN conjunct1, THEN spec, THEN spec, of d c]
  show ?thesis unfolding assms(2) fst_conv snd_conv .
qed

lemma law_update:
  assumes "store_laws db entries" and "entries d i \<noteq> None"
  shows "entries (db_update db i c d) = (entries d)(i := Some c)"
  by (rule assms(1) [unfolded store_laws_def, THEN conjunct2, THEN conjunct2, THEN conjunct1, THEN spec, THEN spec,
        THEN spec, THEN mp, OF assms(2)])

lemma law_delete:
  assumes "store_laws db entries"
  shows "entries (db_delete db i d) = (entries d)(i := None)"
  by (rule assms [unfolded store_laws_def, THEN conjunct2, THEN conjunct2, THEN conjunct2, THEN conjunct1, THEN spec, THEN spec])

lemma law_find:
  assumes "store_laws db entries"
  shows "c \<in> set (db_find db P d) \<longleftrightarrow> P c \<and> (\<exists>i. entries d i = Some c)"
  by (rule assms [unfolded store_laws_def, THEN conjunct2, THEN conjunct2, THEN conjunct2, THEN conjunct2, THEN conjunct1,
        THEN spec, THEN spec, THEN spec])

lemma law_find_one:
  assumes "store_laws db entries"
  shows "case db_find_one db P f d of
        None \<Rightarrow> (\<forall>i c. entries d i = Some c \<longrightarrow> \<not> P c)
      | Some c \<Rightarrow> P c \<and> (\<exists>i. entries d i = Some c) \<and> (\<forall>i e. entries d i = Some e \<longrightarrow> P e \<longrightarrow> f e \<le> f c)"
  by (rule assms [unfolded store_laws_def, THEN conjunct2, THEN conjunct2, THEN conjunct2, THEN conjunct2, THEN conjunct2,
        THEN conjunct1, THEN spec, THEN spec, THEN spec])

lemma law_aggregate:
  assumes "store_laws db entries" and "g \<in> set (db_aggregate db P d)"
  shows "sorted (map CreatedAt g) \<and> distinct (map ID g) \<and>
     (\<exists>k. set g = {c. P c \<and> entry_group c = k \<and> (\<exists>i. entries d i = Some c)})"
  by (rule assms(1) [unfolded store_laws_def, THEN conjunct2, THEN conjunct2, THEN conjunct2, THEN conjunct2, THEN conjunct2,
        THEN conjunct2, THEN spec, THEN spec, THEN spec, THEN mp, OF assms(2)])

section \<open>A store in memory\<close>

text \<open>An association list with the next key, for the witnesses: it satisfies the laws.\<close>

type_synonym mem_store = "nat \<times> (nat \<times> cache) list"

definition mem_find :: "(cache \<Rightarrow> bool) \<Rightarrow> mem_store \<Rightarrow> cache list" where
  "mem_find P d = filter P (remdups (map (\<lambda>i. the (map_of (snd d) i)) (map fst (snd d))))"

definition mem_best :: "(cache \<Rightarrow> int) \<Rightarrow> cache list \<Rightarrow> cache option" where
  "mem_best f cs = (case sort_key f cs of [] \<Rightarrow> None | xs \<Rightarrow> Some (last xs))"

definition mem_get :: "mem_store \<Rightarrow> nat \<Rightarrow> cache option" where
  "mem_get d i = map_of (snd d) i"

definition distinct_ids :: "cache list \<Rightarrow> cache list" where
  "distinct_ids cs = (if distinct (map ID cs) then cs else [])"

definition mem_ops :: "mem_store store_ops" where
  "mem_ops = \<lparr>db_get = mem_get,
     db_insert = (\<lambda>c (n, al).
       let i = Suc (foldr max (map fst al) n) in (i, (i, AList.update i c al))),
     db_update = (\<lambda>i c (n, al). (n, AList.update i c al)),
     db_delete = (\<lambda>i (n, al). (n, AList.delete i al)),
     db_find = mem_find,
     db_find_one = (\<lambda>P f d. mem_best f (mem_find P d)),
     db_aggregate = (\<lambda>P d. [])\<rparr>"

lemma mem_find_set: "c \<in> set (mem_find P d) \<longleftrightarrow> P c \<and> (\<exists>i. mem_get d i = Some c)"
proof -
  have "c \<in> (\<lambda>i. the (map_of (snd d) i)) ` fst ` set (snd d) \<longleftrightarrow> (\<exists>i. map_of (snd d) i = Some c)"
    by (auto simp: image_iff) (metis fst_conv map_of_SomeD option.sel weak_map_of_SomeI)+
  then show ?thesis by (auto simp: mem_find_def mem_get_def image_image)
qed

lemma mem_best_law:
  "case mem_best f cs of None \<Rightarrow> cs = [] | Some c \<Rightarrow> c \<in> set cs \<and> (\<forall>e\<in>set cs. f e \<le> f c)"
proof (cases "sort_key f cs")
  case Nil
  then show ?thesis by (simp add: mem_best_def) (metis length_0_conv length_sort)
next
  case (Cons x xs)
  let ?ys = "sort_key f cs"
  have "last ?ys \<in> set cs" by (metis Cons last_in_set list.distinct(1) set_sort)
  moreover have "f e \<le> f (last ?ys)" if "e \<in> set cs" for e
  proof -
    have ys: "?ys = butlast ?ys @ [last ?ys]" using Cons by simp
    have "sorted (map f ?ys)" by (rule sorted_sort_key)
    then have "sorted (map f (butlast ?ys) @ [f (last ?ys)])" by (metis ys list.simps(8,9) map_append)
    moreover have "e \<in> set (butlast ?ys) \<or> e = last ?ys"
      using that by (metis ys set_sort Un_iff empty_iff insert_iff list.set(1,2) set_append)
    ultimately show ?thesis by (auto simp: sorted_append)
  qed
  ultimately show ?thesis using Cons by (simp add: mem_best_def)
qed

lemma foldr_max_ge: "i \<in> set is \<Longrightarrow> i \<le> foldr max is (n :: nat)"
  by (induction "is") auto

lemma mem_laws: "store_laws mem_ops mem_get"
  unfolding store_laws_def
proof (intro conjI allI impI)
  fix d :: mem_store and i c P g f
  obtain n al where d: "d = (n, al)" by (cases d)
  show "db_get mem_ops d i = mem_get d i" by (simp add: mem_ops_def)
  have "Suc (foldr max (map fst al) n) \<notin> fst ` set al"
    using foldr_max_ge [of _ "map fst al" n] by (metis Suc_n_not_le_n image_set)
  then show "mem_get d (fst (db_insert mem_ops c d)) = None"
    by (simp add: mem_ops_def d mem_get_def map_of_eq_None_iff Let_def)
  show "mem_get (snd (db_insert mem_ops c d)) = (mem_get d)(fst (db_insert mem_ops c d) := Some c)"
    by (rule ext) (simp add: mem_ops_def d mem_get_def update_conv' Let_def)
  show "mem_get (db_update mem_ops i c d) = (mem_get d)(i := Some c)"
    by (rule ext) (simp add: mem_ops_def d mem_get_def update_conv')
  show "mem_get (db_delete mem_ops i d) = (mem_get d)(i := None)"
    by (rule ext) (simp add: mem_ops_def d mem_get_def delete_conv')
  show "(c \<in> set (db_find mem_ops P d)) = (P c \<and> (\<exists>i. mem_get d i = Some c))"
    by (simp add: mem_ops_def mem_find_set)
  show "case db_find_one mem_ops P f d of
         None \<Rightarrow> (\<forall>i c. mem_get d i = Some c \<longrightarrow> \<not> P c)
       | Some c \<Rightarrow> P c \<and> (\<exists>i. mem_get d i = Some c) \<and> (\<forall>i e. mem_get d i = Some e \<longrightarrow> P e \<longrightarrow> f e \<le> f c)"
    using mem_best_law [where f = f and cs = "mem_find P d"] mem_find_set [where P = P and d = d]
    by (auto simp: mem_ops_def split: option.splits)
qed (simp_all add: mem_ops_def)

section \<open>Restoring\<close>

definition restorable :: "string \<Rightarrow> string \<Rightarrow> string \<Rightarrow> cache \<Rightarrow> bool" where
  "restorable repo version k e = (cRepo e = repo \<and> has_prefix k (cKey e) \<and> cVersion e = version \<and> Complete e)"

text \<open>Whether an entry is the one to restore for the first key that has one: its newest exact match, or its newest.\<close>

definition best_for :: "(nat \<Rightarrow> cache option) \<Rightarrow> string \<Rightarrow> string \<Rightarrow> string \<Rightarrow> cache \<Rightarrow> bool" where
  "best_for es repo version k c =
     (restorable repo version k c \<and> (\<exists>i. es i = Some c) \<and>
      (\<forall>i e. es i = Some e \<longrightarrow> restorable repo version k e \<longrightarrow>
         (cKey e = k \<longrightarrow> cKey c = k) \<and> (cKey e = k \<or> cKey c \<noteq> k \<longrightarrow> CreatedAt e \<le> CreatedAt c)))"

lemma best_first:
  assumes "best_for es repo version k c"
  shows "\<exists>pre k' post. k # keys = pre @ k' # post \<and> best_for es repo version k' c \<and>
    (\<forall>k''\<in>set pre. \<forall>i e. es i = Some e \<longrightarrow> \<not> restorable repo version k'' e)"
  by (rule exI [of _ "[]"], rule exI [of _ k], rule exI [of _ keys]) (simp add: assms)

lemma findCache_spec:
  assumes "store_laws db entries"
  shows "case findCache db d repo keys version of
      None \<Rightarrow> (\<forall>k\<in>set keys. \<forall>i e. entries d i = Some e \<longrightarrow> \<not> restorable repo version k e)
    | Some c \<Rightarrow> (\<exists>pre k post. keys = pre @ k # post \<and> best_for (entries d) repo version k c \<and>
        (\<forall>k'\<in>set pre. \<forall>i e. entries d i = Some e \<longrightarrow> \<not> restorable repo version k' e))"
proof (induction keys)
  case (Cons k keys)
  let ?E = "\<lambda>c :: cache. cRepo c = repo \<and> cKey c = k \<and> cVersion c = version \<and> Complete c"
  let ?P = "\<lambda>c :: cache. cRepo c = repo \<and> has_prefix k (cKey c) \<and> cVersion c = version \<and> Complete c"
  have P: "?P = restorable repo version k" by (simp add: restorable_def fun_eq_iff)
  have x: "findExactCache db d repo k version True = db_find_one db ?E CreatedAt d"
    by (simp add: findExactCache_def)
  show ?case
  proof (cases "db_find_one db ?E CreatedAt d")
    case (Some c)
    with law_find_one [where P = ?E and f = CreatedAt and d = d, OF assms]
    have b: "best_for (entries d) repo version k c"
      by (auto simp: best_for_def restorable_def)
    have f: "findCache db d repo (k # keys) version = Some c" by (simp add: x Some)
    show ?thesis unfolding f option.case by (rule best_first [OF b])
  next
    case None
    with law_find_one [where P = ?E and f = CreatedAt and d = d, OF assms]
    have no_exact: "entries d i = Some e \<Longrightarrow> restorable repo version k e \<Longrightarrow> cKey e \<noteq> k" for i e
      by (auto simp: restorable_def)
    show ?thesis
    proof (cases "db_find_one db ?P CreatedAt d")
      case (Some c)
      with law_find_one [where P = ?P and f = CreatedAt and d = d, OF assms]
      have l: "?P c" "\<exists>i. entries d i = Some c" "\<forall>i e. entries d i = Some e \<longrightarrow> ?P e \<longrightarrow> CreatedAt e \<le> CreatedAt c"
        by auto
      have b: "best_for (entries d) repo version k c"
        using l no_exact unfolding best_for_def restorable_def by blast
      have f: "findCache db d repo (k # keys) version = Some c" by (simp add: x None Some)
      show ?thesis unfolding f option.case by (rule best_first [OF b])
    next
      case N: None
      with law_find_one [where P = ?P and f = CreatedAt and d = d, OF assms]
      have none: "\<forall>i e. entries d i = Some e \<longrightarrow> \<not> restorable repo version k e"
        by (auto simp: restorable_def)
      have step: "findCache db d repo (k # keys) version = findCache db d repo keys version"
        by (simp add: x None N)
      show ?thesis
      proof (cases "findCache db d repo keys version")
        case (Some c)
        with Cons.IH obtain pre k' post where "keys = pre @ k' # post" "best_for (entries d) repo version k' c"
          "\<forall>k''\<in>set pre. \<forall>i e. entries d i = Some e \<longrightarrow> \<not> restorable repo version k'' e" by auto
        with none show ?thesis unfolding step Some by (auto intro!: exI [of _ "k # pre"])
      qed (use none Cons.IH step in auto)
    qed
  qed
qed simp

section \<open>Registrations\<close>

datatype reg_op = Register JobCredential | Revoke

fun run_reg :: "string \<times> reg_op \<Rightarrow> 'db handler \<Rightarrow> 'db handler" where
  "run_reg (token, Register c) h = RegisterJob token c h"
| "run_reg (token, Revoke) h = RevokeJob token h"

text \<open>How many registrations of a token are live, and which credential counts.\<close>

fun live :: "(JobCredential \<times> nat) option \<Rightarrow> reg_op \<Rightarrow> (JobCredential \<times> nat) option" where
  "live None (Register c) = Some (c, 1)"
| "live (Some (c, n)) (Register c') = Some (c, Suc n)"
| "live None Revoke = None"
| "live (Some (c, n)) Revoke = (if n \<le> 1 then None else Some (c, n - 1))"

definition reg_of :: "'db handler \<Rightarrow> string \<Rightarrow> (JobCredential \<times> nat) option" where
  "reg_of h token = map_option (\<lambda>e. (cred e, nat (refs e))) (map_of (creds h) token)"

definition refs_positive :: "'db handler \<Rightarrow> bool" where
  "refs_positive h = (\<forall>t e. map_of (creds h) t = Some e \<longrightarrow> 0 < refs e)"

lemma run_reg_step:
  assumes "refs_positive h" and "token \<noteq> []"
  shows "refs_positive (run_reg (token, x) h)"
    and "reg_of (run_reg (token, x) h) t = (if t = token then live (reg_of h t) x else reg_of h t)"
proof -
  have "refs_positive (run_reg (token, x) h) \<and>
      reg_of (run_reg (token, x) h) t = (if t = token then live (reg_of h t) x else reg_of h t)"
  proof (cases "map_of (creds h) token")
    case None
    with assms show ?thesis
      by (cases x) (auto simp: RegisterJob_def RevokeJob_def reg_of_def refs_positive_def update_conv')
  next
    case (Some e)
    with assms(1) have "0 < refs e" by (auto simp: refs_positive_def)
    then have n: "nat (refs e + 1) = Suc (nat (refs e))" "refs e - 1 \<le> 0 \<longleftrightarrow> nat (refs e) \<le> 1"
      "nat (refs e - 1) = nat (refs e) - 1" "0 < refs e + 1" "\<not> nat (refs e) \<le> 1 \<Longrightarrow> 1 < refs e" by linarith+
    show ?thesis
    proof (cases x)
      case (Register c)
      have "RegisterJob token c h = h\<lparr>creds := AList.update token (e\<lparr>refs := refs e + 1\<rparr>) (creds h)\<rparr>"
        using Some assms(2) by (simp add: RegisterJob_def)
      with Some assms n show ?thesis
        by (simp add: Register reg_of_def refs_positive_def update_conv')
    next
      case Revoke
      have "RevokeJob token h = (if nat (refs e) \<le> 1 then h\<lparr>creds := AList.delete token (creds h)\<rparr>
          else h\<lparr>creds := AList.update token (e\<lparr>refs := refs e - 1\<rparr>) (creds h)\<rparr>)"
        using Some assms(2) n(2) by (simp add: RevokeJob_def Let_def)
      with Some assms n show ?thesis
        by (simp add: Revoke reg_of_def refs_positive_def update_conv' delete_conv')
    qed
  qed
  then show "refs_positive (run_reg (token, x) h)"
    and "reg_of (run_reg (token, x) h) t = (if t = token then live (reg_of h t) x else reg_of h t)" by auto
qed

lemma run_regs:
  "refs_positive h \<Longrightarrow> list_all (\<lambda>x. fst x \<noteq> []) ops \<Longrightarrow>
     reg_of (fold run_reg ops h) t = fold (\<lambda>x r. live r (snd x)) (filter (\<lambda>x. fst x = t) ops) (reg_of h t)"
proof (induction ops arbitrary: h)
  case (Cons x ops)
  obtain token y where x: "x = (token, y)" by (cases x)
  with Cons run_reg_step(1) [where h = h and token = token and x = y]
    run_reg_step(2) [where h = h and token = token and x = y and t = t] show ?case by auto
qed simp

section \<open>Signatures\<close>

lemma itoa_no_colon: "CHR '':'' \<notin> set (itoa i)"
  by (rule itoa_chars) (simp_all add: digit_val_def)

lemma itoa_not_u: "CHR ''u'' \<notin> set (itoa i)"
  by (rule itoa_chars) (simp_all add: digit_val_def)

lemma signed_message_inj:
  assumes "signed_message p i e = signed_message p' i' e'"
    and "p \<in> {[], blobUploadPurpose}" and "p' \<in> {[], blobUploadPurpose}"
    and "in_i64 i" "in_i64 i'" "in_i64 e" "in_i64 e'"
  shows "p = p' \<and> i = i' \<and> e = e'"
proof -
  have tail: "i = i' \<and> e = e'" if "itoa i @ '':'' @ itoa e = itoa i' @ '':'' @ itoa e'"
  proof -
    have t: "itoa i @ CHR '':'' # itoa e = itoa i' @ CHR '':'' # itoa e'" using that by simp
    have "str_cut (itoa i @ CHR '':'' # itoa e) '':'' = (itoa i, itoa e, True)"
      "str_cut (itoa i' @ CHR '':'' # itoa e') '':'' = (itoa i', itoa e', True)"
      by (rule str_cut_glue [OF itoa_no_colon])+
    then have "itoa i = itoa i' \<and> itoa e = itoa e'" unfolding t by simp
    then show ?thesis using assms(4-7) itoa_inj by blast
  qed
  have "p = p'"
  proof (rule ccontr)
    assume "p \<noteq> p'"
    then obtain j j' f f' where "signed_message [] j f = signed_message blobUploadPurpose j' f'"
      using assms(1,2,3) by (metis empty_iff insert_iff)
    then have "itoa j @ '':'' @ itoa f = ''upload:'' @ itoa j' @ '':'' @ itoa f'"
      by (simp add: signed_message_def blobUploadPurpose_def)
    then have "CHR ''u'' \<in> set (itoa j)" by (cases "itoa j") auto
    then show False using itoa_not_u by blast
  qed
  then show ?thesis using assms(1) tail by (simp add: signed_message_def)
qed

section \<open>Collecting leaves the live entries\<close>

definition ids_match :: "(nat \<Rightarrow> cache option) \<Rightarrow> bool" where
  "ids_match es = (\<forall>i c. es i = Some c \<longrightarrow> ID c = i)"

text \<open>What the collection keeps of one entry: the entry, and what its blob serves.\<close>

definition kept :: "('db \<Rightarrow> nat \<Rightarrow> cache option) \<Rightarrow> cache \<Rightarrow> 'db handler \<Rightarrow> 'db handler \<Rightarrow> bool" where
  "kept entries c h h' =
     (entries (hdb h') (ID c) = Some c \<and> hstorage h' = hstorage h \<and>
      Serve (hstorage h) (ID c) (hfs h') = Serve (hstorage h) (ID c) (hfs h) \<and>
      (\<forall>i e. entries (hdb h') i = Some e \<longrightarrow> entries (hdb h) i = Some e))"

lemma kept_trans: "kept entries c h h' \<Longrightarrow> kept entries c h' h'' \<Longrightarrow> kept entries c h h''"
  by (simp add: kept_def)

lemma kept_ids: "kept entries c h h' \<Longrightarrow> ids_match (entries (hdb h)) \<Longrightarrow> ids_match (entries (hdb h'))"
  by (auto simp: kept_def ids_match_def)

lemma gc_delete_kept:
  assumes "store_laws db entries" and "entries (hdb h) (ID c) = Some c" and "ID e \<noteq> ID c"
  shows "kept entries c h (gc_delete db e h)"
  using assms law_delete [OF assms(1)]
  by (auto simp: kept_def gc_delete_def Remove_def Serve_def split: if_splits)

lemma fold_gc_delete_kept:
  assumes "store_laws db entries"
  shows "entries (hdb h) (ID c) = Some c \<Longrightarrow> \<forall>e\<in>set es. Q e \<longrightarrow> ID e \<noteq> ID c \<Longrightarrow>
    kept entries c h (fold (\<lambda>e h. if Q e then gc_delete db e h else h) es h)"
proof (induction es arbitrary: h)
  case (Cons e es)
  let ?h = "if Q e then gc_delete db e h else h"
  have k: "kept entries c h ?h"
    using gc_delete_kept [OF assms Cons.prems(1)] Cons.prems by (auto simp: kept_def)
  then have "entries (hdb ?h) (ID c) = Some c" by (simp add: kept_def)
  from Cons.IH [OF this] Cons.prems(2) kept_trans [OF k] show ?case by simp
qed (simp add: kept_def)

lemma gc_phase_kept:
  assumes "store_laws db entries" and "entries (hdb h) (ID c) = Some c" and "ids_match (entries (hdb h))" and "\<not> P c"
  shows "kept entries c h (gc_phase db P h)"
proof -
  have "\<forall>e\<in>set (db_find db P (hdb h)). True \<longrightarrow> ID e \<noteq> ID c"
  proof (intro ballI impI notI)
    fix e assume e: "e \<in> set (db_find db P (hdb h))" "ID e = ID c"
    then obtain i where "P e" "entries (hdb h) i = Some e" using law_find [OF assms(1)] by blast
    with assms(2,3) e(2) have "e = c" unfolding ids_match_def by (metis option.inject)
    with \<open>P e\<close> assms(4) show False by simp
  qed
  from fold_gc_delete_kept [OF assms(1,2) this] show ?thesis by (simp add: gc_phase_def)
qed

definition newest :: "(nat \<Rightarrow> cache option) \<Rightarrow> cache \<Rightarrow> bool" where
  "newest es c = (\<forall>i e. es i = Some e \<longrightarrow> Complete e \<longrightarrow> entry_group e = entry_group c \<longrightarrow> e \<noteq> c \<longrightarrow>
     CreatedAt e < CreatedAt c)"

text \<open>In a sorted group the newest entry comes last.\<close>

lemma newest_last:
  assumes "sorted (map CreatedAt g)" and "distinct (map ID g)" and "c \<in> set (butlast g)"
    and "\<And>e. e \<in> set g \<Longrightarrow> e \<noteq> c \<Longrightarrow> CreatedAt e < CreatedAt c"
  shows False
proof -
  have g: "g = butlast g @ [last g]" using assms(3) by (cases g) auto
  have "sorted (map CreatedAt (butlast g) @ [CreatedAt (last g)])" using assms(1) g by (metis list.simps(8,9) map_append)
  then have le: "CreatedAt c \<le> CreatedAt (last g)" using assms(3) by (auto simp: sorted_append)
  have "distinct (map ID (butlast g) @ [ID (last g)])" using assms(2) g by (metis list.simps(8,9) map_append)
  then have "last g \<noteq> c" using assms(3) by auto
  moreover have "last g \<in> set g" using g by (metis in_set_conv_decomp)
  ultimately show False using assms(4) le by fastforce
qed

lemma gc_groups_kept:
  assumes "store_laws db entries"
    and "\<And>g e. g \<in> set gs \<Longrightarrow> e \<in> set (butlast g) \<Longrightarrow> \<not> now - UsedAt e < keepOld \<Longrightarrow> ID e \<noteq> ID c"
  shows "entries (hdb h) (ID c) = Some c \<Longrightarrow> kept entries c h (fold (gc_group db now) gs h)"
  using assms(2)
proof (induction gs arbitrary: h)
  case (Cons g gs)
  have k: "kept entries c h (gc_group db now g h)"
  proof (cases "length g \<le> 1")
    case True
    with Cons.prems(1) show ?thesis by (simp add: gc_group_def kept_def)
  next
    case False
    have "\<forall>e\<in>set (butlast g). \<not> now - UsedAt e < keepOld \<longrightarrow> ID e \<noteq> ID c" using Cons.prems(2) by auto
    from fold_gc_delete_kept [OF assms(1) Cons.prems(1) this]
    have "kept entries c h (fold (\<lambda>e h. if \<not> now - UsedAt e < keepOld then gc_delete db e h else h) (butlast g) h)" .
    moreover have "(\<lambda>e h. if \<not> now - UsedAt e < keepOld then gc_delete db e h else h) =
        (\<lambda>e h. if now - UsedAt e < keepOld then h else gc_delete db e h)"
      by (intro ext) simp
    ultimately show ?thesis using False by (simp add: gc_group_def)
  qed
  from k have "entries (hdb (gc_group db now g h)) (ID c) = Some c" by (simp add: kept_def)
  then have "kept entries c (gc_group db now g h) (fold (gc_group db now) gs (gc_group db now g h))"
    by (rule Cons.IH) (use Cons.prems(2) in auto)
  with k show ?case using kept_trans by (simp only: fold_simps) blast
qed (simp add: kept_def)

lemma gc_group_safe:
  assumes "store_laws db entries" and "kept entries c h h3" and "ids_match (entries (hdb h3))"
    and "now - UsedAt c < keepOld \<or> newest (entries (hdb h)) c"
    and "g \<in> set (db_aggregate db Complete (hdb h3))" and "e \<in> set (butlast g)" and "\<not> now - UsedAt e < keepOld"
  shows "ID e \<noteq> ID c"
proof
  assume i: "ID e = ID c"
  obtain k where a: "sorted (map CreatedAt g)" "distinct (map ID g)"
      "set g = {c. Complete c \<and> entry_group c = k \<and> (\<exists>i. entries (hdb h3) i = Some c)}"
    using law_aggregate [OF assms(1,5)] by (elim conjE exE)
  have "e \<in> set g" using assms(6) by (rule in_set_butlastD)
  then obtain j where j: "entries (hdb h3) j = Some e" "entry_group e = k" unfolding a(3) by blast
  have "entries (hdb h3) (ID c) = Some c" using assms(2) by (simp add: kept_def)
  with j(1) assms(3) i have e: "e = c" unfolding ids_match_def by (metis option.inject)
  then have nw: "newest (entries (hdb h)) c" using assms(4,7) by simp
  have "CreatedAt x < CreatedAt c" if "x \<in> set g" "x \<noteq> c" for x
  proof -
    from that(1) obtain m where m: "Complete x" "entry_group x = k" "entries (hdb h3) m = Some x"
      unfolding a(3) by blast
    have "entries (hdb h) m = Some x" using assms(2) m(3) by (simp add: kept_def)
    moreover have "entry_group x = entry_group c" using m(2) j(2) e by simp
    ultimately show ?thesis using nw m(1) that(2) unfolding newest_def by blast
  qed
  then show False using newest_last [OF a(1,2)] assms(6) e by blast
qed

lemma gc_kept:
  assumes "store_laws db entries" and "entries (hdb h) (ID c) = Some c" and "ids_match (entries (hdb h))"
    and "Complete c" and "now - keepUnused \<le> UsedAt c" and "now - keepUsed \<le> CreatedAt c"
    and "now - UsedAt c < keepOld \<or> newest (entries (hdb h)) c"
  shows "kept entries c h (gcCache db now h)"
proof (cases "now - gcAt h < 3600 \<or> open_err h \<noteq> None")
  case True
  then show ?thesis using assms(2) by (auto simp: gcCache_def kept_def Let_def)
next
  case False
  let ?h0 = "h\<lparr>gcAt := now\<rparr>"
  let ?h1 = "gc_phase db (\<lambda>c. UsedAt c < now - keepTemp \<and> \<not> Complete c) ?h0"
  let ?h2 = "gc_phase db (\<lambda>c. UsedAt c < now - keepUnused) ?h1"
  let ?h3 = "gc_phase db (\<lambda>c. CreatedAt c < now - keepUsed) ?h2"
  note ph = gc_phase_kept [OF assms(1)]
  have k0: "kept entries c h ?h0" using assms(2) by (simp add: kept_def)
  have at: "entries (hdb h') (ID c) = Some c \<and> ids_match (entries (hdb h'))" if "kept entries c h h'" for h'
    using that kept_ids [OF that assms(3)] by (simp add: kept_def)
  have k1: "kept entries c h ?h1"
    using ph [of ?h0 c "\<lambda>c. UsedAt c < now - keepTemp \<and> \<not> Complete c"] at [OF k0] assms(4) kept_trans [OF k0] by blast
  have k2: "kept entries c h ?h2"
    using ph [of ?h1 c "\<lambda>c. UsedAt c < now - keepUnused"] at [OF k1] assms(5) kept_trans [OF k1] by fastforce
  have k3: "kept entries c h ?h3"
    using ph [of ?h2 c "\<lambda>c. CreatedAt c < now - keepUsed"] at [OF k2] assms(6) kept_trans [OF k2] by fastforce
  have safe: "ID e \<noteq> ID c"
    if "g \<in> set (db_aggregate db Complete (hdb ?h3))" "e \<in> set (butlast g)" "\<not> now - UsedAt e < keepOld" for g e
    by (rule gc_group_safe [OF assms(1) k3 _ assms(7) that]) (use at [OF k3] in blast)
  have "kept entries c ?h3 (fold (gc_group db now) (db_aggregate db Complete (hdb ?h3)) ?h3)"
    by (rule gc_groups_kept [OF assms(1)]) (use safe at [OF k3] in auto)
  then have "kept entries c h (fold (gc_group db now) (db_aggregate db Complete (hdb ?h3)) ?h3)"
    by (rule kept_trans [OF k3])
  moreover have "gcCache db now h = fold (gc_group db now) (db_aggregate db Complete (hdb ?h3)) ?h3"
    using False by (simp add: gcCache_def Let_def)
  ultimately show ?thesis by simp
qed

section \<open>Saving and restoring\<close>

definition range_header :: "int \<Rightarrow> string \<Rightarrow> string" where
  "range_header i d = ''bytes '' @ itoa i @ ''-'' @ itoa (i + int (length d) - 1) @ ''/*''"

lemma itoa_no_slash: "CHR ''/'' \<notin> set (itoa i)"
  by (rule itoa_chars) (simp_all add: digit_val_def)

lemma itoa_nonneg_no_minus: "0 \<le> i \<Longrightarrow> CHR ''-'' \<notin> set (itoa i)"
  using nat_digits_digit [of "CHR ''-''" "nat i"] by (auto simp: itoa_def digit_val_def)

lemma parseContentRange_ok:
  assumes "0 \<le> a" and "in_i64 a" and "in_i64 b"
  shows "parseContentRange (''bytes '' @ itoa a @ ''-'' @ itoa b @ ''/'' @ rest) = Inr (a, b)"
proof -
  have 1: "trim_prefix ''bytes '' (''bytes '' @ itoa a @ ''-'' @ itoa b @ ''/'' @ rest) = (itoa a @ ''-'' @ itoa b) @ ''/'' @ rest"
    by (simp only: trim_prefix_append append_assoc)
  have "CHR ''/'' \<notin> set (itoa a @ ''-'' @ itoa b)" using itoa_no_slash by simp
  from str_cut_glue [OF this, of rest]
  have 2: "str_cut ((itoa a @ ''-'' @ itoa b) @ ''/'' @ rest) ''/'' = (itoa a @ ''-'' @ itoa b, rest, True)" by simp
  have 3: "str_cut (itoa a @ ''-'' @ itoa b) ''-'' = (itoa a, itoa b, True)"
    using str_cut_glue [OF itoa_nonneg_no_minus [OF assms(1)], of "itoa b"] by simp
  show ?thesis unfolding parseContentRange_def 1 2 prod.case 3
    by (simp add: parse_int_itoa assms(2,3))
qed

lemma itoa_nat: "itoa (int i) = nat_digits i"
  by (simp add: itoa_def)

lemma reserved_entry_ok:
  assumes "store_laws db entries" and "open_err h = None" and "entries (hdb h) i = Some c" and "cRepo c = Repo cr"
    and "\<not> Complete c" and "int i < 2 ^ 63"
  shows "reserved_entry db cr (nat_digits i) h = Inr (int i, c)"
proof -
  have "in_i64 (int i)" using assms(6) by (simp add: in_i64_def)
  then have p: "parse_int (nat_digits i) = Some (int i)" using parse_int_itoa itoa_nat by metis
  show ?thesis using assms(2-5) law_get [OF assms(1)] by (simp add: reserved_entry_def p get_entry_def)
qed

lemma touch_ok:
  assumes "store_laws db entries" and "open_err h = None" and "entries (hdb h) i = Some c" and "ID c = i"
  shows "touchCache db now i False h = (None, h\<lparr>hdb := db_update db i (c\<lparr>UsedAt := now\<rparr>) (hdb h)\<rparr>)"
  using assms(2-4) law_get [OF assms(1)] by (simp add: touchCache_def)

lemma upload_ok:
  assumes "store_laws db entries" and "open_err h = None" and "entries (hdb h) i = Some c" and "ID c = i"
    and "cRepo c = Repo cr" and "\<not> Complete c" and "int i < 2 ^ 63"
    and "0 \<le> off" and "off + int (length d) \<le> 2 ^ 63" and "d \<noteq> []"
  shows "upload db now cr (nat_digits i) (range_header off d) (d, None) h =
    ((200, BEmpty), h\<lparr>hfs := snd (CacheStorage.Write (hstorage h) i off (d, None) (hfs h)),
        hdb := db_update db i (c\<lparr>UsedAt := now\<rparr>) (hdb h)\<rparr>)"
proof -
  have l: "0 < int (length d)" using assms(10) by simp
  have "in_i64 off" "in_i64 (off + int (length d) - 1)"
    using assms(8,9) l unfolding in_i64_def by linarith+
  then have r: "parseContentRange (range_header off d) = Inr (off, off + int (length d) - 1)"
    using parseContentRange_ok [of off "off + int (length d) - 1" "''*''"] assms(8) by (simp add: range_header_def)
  have w: "CacheStorage.Write (hstorage h) i off (d, None) (hfs h) = (None, snd (CacheStorage.Write (hstorage h) i off (d, None) (hfs h)))"
    by (simp add: CacheStorage.Write_def writeFile_def)
  let ?h = "h\<lparr>hfs := snd (CacheStorage.Write (hstorage h) i off (d, None) (hfs h))\<rparr>"
  have t: "touchCache db now i False ?h = (None, ?h\<lparr>hdb := db_update db i (c\<lparr>UsedAt := now\<rparr>) (hdb ?h)\<rparr>)"
    by (rule touch_ok [OF assms(1)]) (use assms(2-4) in simp_all)
  show ?thesis
    unfolding upload_def reserved_entry_ok [OF assms(1,2,3,5,6,7)] sum.case prod.case r
    by (subst assms(4), subst w) (simp add: t)
qed

definition upload_all ::
  "'db store_ops \<Rightarrow> int \<Rightarrow> JobCredential \<Rightarrow> nat \<Rightarrow> (int \<times> string) list \<Rightarrow> 'db handler \<Rightarrow> 'db handler" where
  "upload_all db now cr i ups h =
     fold (\<lambda>(off, d) h. snd (upload db now cr (nat_digits i) (range_header off d) (d, None) h)) ups h"

lemma upload_all_ok:
  assumes "store_laws db entries" and "cRepo c = Repo cr" and "\<not> Complete c" and "ID c = i" and "int i < 2 ^ 63"
    and "list_all (\<lambda>(off, d). 0 \<le> off \<and> off + int (length d) \<le> 2 ^ 63 \<and> d \<noteq> []) ups"
  shows "open_err h = None \<Longrightarrow> entries (hdb h) i = Some (c\<lparr>UsedAt := u\<rparr>) \<Longrightarrow>
    \<exists>d' u'. upload_all db now cr i ups h = h\<lparr>hdb := d',
        hfs := fold (run_blob (hstorage h)) (map (\<lambda>(off, d). BWrite i off (d, None)) ups) (hfs h)\<rparr> \<and>
      entries d' = (entries (hdb h))(i := Some (c\<lparr>UsedAt := u'\<rparr>))"
  using assms(6)
proof (induction ups arbitrary: h u)
  case Nil
  then show ?case by (intro exI [of _ "hdb h"] exI [of _ u]) (simp add: upload_all_def fun_upd_idem)
next
  case (Cons x ups)
  obtain off d where x: "x = (off, d)" by (cases x)
  let ?c = "c\<lparr>UsedAt := u\<rparr>"
  let ?h = "h\<lparr>hfs := snd (CacheStorage.Write (hstorage h) i off (d, None) (hfs h)),
        hdb := db_update db i (c\<lparr>UsedAt := now\<rparr>) (hdb h)\<rparr>"
  have up: "upload db now cr (nat_digits i) (range_header off d) (d, None) h = ((200, BEmpty), ?h)"
    using upload_ok [OF assms(1) Cons.prems(1,2), of cr off d now] assms(2-5) Cons.prems(3) x by simp
  have es: "entries (hdb ?h) = (entries (hdb h))(i := Some (c\<lparr>UsedAt := now\<rparr>))"
    using law_update [OF assms(1), of "hdb h" i] Cons.prems(2) by simp
  have "open_err ?h = None" "entries (hdb ?h) i = Some (c\<lparr>UsedAt := now\<rparr>)" using Cons.prems(1) es by simp_all
  moreover have "list_all (\<lambda>(off, d). 0 \<le> off \<and> off + int (length d) \<le> 2 ^ 63 \<and> d \<noteq> []) ups"
    using Cons.prems(3) by simp
  ultimately obtain d' u' where
    r: "upload_all db now cr i ups ?h = ?h\<lparr>hdb := d',
        hfs := fold (run_blob (hstorage ?h)) (map (\<lambda>(off, d). BWrite i off (d, None)) ups) (hfs ?h)\<rparr>"
      "entries d' = (entries (hdb ?h))(i := Some (c\<lparr>UsedAt := u'\<rparr>))"
    using Cons.IH by blast
  have "upload_all db now cr i (x # ups) h = upload_all db now cr i ups ?h"
    by (simp add: upload_all_def x up)
  with r es show ?case by (intro exI [of _ d'] exI [of _ u']) (simp add: x)
qed

lemma commit_h_ok:
  assumes "store_laws db entries" and "open_err h = None" and "entries (hdb h) i = Some c" and "ID c = i"
    and "cRepo c = Repo cr" and "\<not> Complete c" and "int i < 2 ^ 63"
    and "fst (Commit (hstorage h) i (cSize c) (hfs h)) = Inr n"
  shows "commit_h db cr (nat_digits i) h = ((200, BEmpty),
    h\<lparr>hfs := snd (Commit (hstorage h) i (cSize c) (hfs h)),
      hdb := db_update db i (c\<lparr>cSize := n, Complete := True\<rparr>) (hdb h)\<rparr>)"
proof -
  have p: "Commit (hstorage h) i (cSize c) (hfs h) = (Inr n, snd (Commit (hstorage h) i (cSize c) (hfs h)))"
    using assms(8) by (simp add: prod_eq_iff)
  show ?thesis
    unfolding commit_h_def reserved_entry_ok [OF assms(1,2,3,5,6,7)] sum.case prod.case commitCache_def assms(4)
    by (subst p) (simp add: assms(2,4) Let_def)
qed

lemma find_only_complete:
  assumes "store_laws db entries" and "entries d i = Some c" and "restorable (Repo cr) v k c" and "cKey c = k"
    and "\<And>j e. entries d j = Some e \<Longrightarrow> cRepo e = Repo cr \<Longrightarrow> cKey e = k \<Longrightarrow> cVersion e = v \<Longrightarrow> Complete e \<Longrightarrow> e = c"
  shows "findCache db d (Repo cr) [k] v = Some c"
proof -
  let ?E = "\<lambda>e :: cache. cRepo e = Repo cr \<and> cKey e = k \<and> cVersion e = v \<and> Complete e"
  have E: "?E c" using assms(3,4) by (simp add: restorable_def)
  note l = law_find_one [where P = ?E and f = CreatedAt and d = d, OF assms(1)]
  have "db_find_one db ?E CreatedAt d = Some c"
  proof (cases "db_find_one db ?E CreatedAt d")
    case None
    from l [unfolded None option.case] assms(2) E show ?thesis by blast
  next
    case (Some e)
    from l [unfolded Some option.case] obtain j where "?E e" "entries d j = Some e" by blast
    then have "e = c" using assms(5) by blast
    with Some show ?thesis by simp
  qed
  then show ?thesis by (simp add: findExactCache_def)
qed

lemma get_h_serves:
  assumes "int i < 2 ^ 63" and "Serve (hstorage h) i (hfs h) = Some x"
  shows "fst (get_h db now (nat_digits i) h) = (200, BFile (Some x))"
proof -
  have "in_i64 (int i)" using assms(1) by (simp add: in_i64_def)
  then have p: "parse_int (nat_digits i) = Some (int i)" using parse_int_itoa itoa_nat by metis
  have m: "int i mod 18446744073709551616 = int i" using assms(1) by simp
  have s: "hstorage (snd (touchCache db now i False h)) = hstorage h" "hfs (snd (touchCache db now i False h)) = hfs h"
    by (simp_all add: touchCache_def split: option.splits)
  show ?thesis using assms(2) by (simp add: get_h_def p m s Let_def)
qed

lemma reserve_ok:
  assumes "store_laws db entries" and "open_err h = None" and "reserve db now cr (Inr req) h = ((200, BCacheId i), h1)"
  shows "\<exists>d. h1 = h\<lparr>hdb := d\<rparr> \<and> entries (hdb h) i = None \<and>
    entries d = (entries (hdb h))(i := Some ((ToCache req)\<lparr>cRepo := Repo cr, CreatedAt := now, UsedAt := now, ID := i\<rparr>))"
proof -
  let ?c = "(ToCache req)\<lparr>cRepo := Repo cr, CreatedAt := now, UsedAt := now\<rparr>"
  obtain j d where ins: "db_insert db ?c (hdb h) = (j, d)" by (cases "db_insert db ?c (hdb h)")
  note l = law_insert [OF assms(1) ins]
  have r: "reserve db now cr (Inr req) h = ((200, BCacheId j), h\<lparr>hdb := db_update db j (?c\<lparr>ID := j\<rparr>) d\<rparr>)"
    by (simp add: reserve_def insertCache_def assms(2) ins Let_def)
  have j: "j = i" and h1: "h1 = h\<lparr>hdb := db_update db j (?c\<lparr>ID := j\<rparr>) d\<rparr>" using r assms(3) by simp_all
  have "entries d j \<noteq> None" using l by simp
  from law_update [OF assms(1) this] l
  have "entries (db_update db j (?c\<lparr>ID := j\<rparr>) d) = (entries (hdb h))(j := Some (?c\<lparr>ID := j\<rparr>))" by (simp add: fun_eq_iff)
  with l h1 show ?thesis unfolding j by (intro exI [of _ "db_update db i (?c\<lparr>ID := i\<rparr>) d"]) simp
qed

lemma pieces_list_all:
  assumes "list_all (\<lambda>d. d \<noteq> []) ds" and "int (length (concat ds)) < 2 ^ 63" and "mset ups = mset (pieces_at 0 ds)"
  shows "list_all (\<lambda>(off, d). 0 \<le> off \<and> off + int (length d) \<le> 2 ^ 63 \<and> d \<noteq> []) ups \<and>
    list_all blob_op_ok (map (\<lambda>(off, d). BWrite i off (d, None)) ups)"
proof -
  have fit: "(j, x) \<in> set (pieces_at k ds) \<Longrightarrow> list_all (\<lambda>d. d \<noteq> []) ds \<Longrightarrow>
      k \<le> j \<and> j + int (length x) \<le> k + int (length (concat ds)) \<and> x \<noteq> []" for j x k
  proof (induction ds arbitrary: k)
    case (Cons d ds)
    then show ?case by (cases "(j, x) = (k, d)") fastforce+
  qed simp
  have s: "set ups = set (pieces_at 0 ds)" using assms(3) by (rule mset_eq_setD)
  have "0 \<le> j \<and> j + int (length x) < 2 ^ 63 \<and> x \<noteq> []" if "(j, x) \<in> set ups" for j x
    using fit [of j x 0] that assms(1,2) unfolding s by fastforce
  then show ?thesis by (fastforce simp: list_all_iff good_offset_def)
qed

lemma fold_all_blob: "filter (\<lambda>x. blob_target x = i) (map (\<lambda>(off, d). BWrite i off (d, None)) ups) =
    map (\<lambda>(off, d). BWrite i off (d, None)) ups"
  by (induction ups) auto

lemma split_at_none: "c \<notin> set s \<Longrightarrow> split_at c s = [s]"
  by (induction s) auto

lemma find_h_hit:
  assumes "open_err h = None" and "CHR '','' \<notin> set k" and "findCache db (hdb h) (Repo cr) [k] v = Some c"
    and "Serve (hstorage h) (ID c) (hfs h) \<noteq> None"
  shows "find_h mac db now cr k v h =
    ((200, BHit (signedArtifactURL mac cr (ID c) (now + artifactURLTTL) h) (cKey c)), h)"
  using assms by (simp add: find_h_def split_at_none lookupCache_def Exist_def Serve_def)

lemma save_restore:
  assumes "store_laws db entries" and "open_err h = None" and "store_ok (hstorage h) (hfs h)"
    and "list_all (\<lambda>d. d \<noteq> []) ds" and "ds \<noteq> []" and "int (length (concat ds)) < 2 ^ 63"
    and "mset ups = mset (pieces_at 0 ds)" and "rSize req = int (length (concat ds))"
    and "findExactCache db (hdb h) (Repo cr) (rKey req) (rVersion req) True = None"
    and "CHR '','' \<notin> set (rKey req)"
    and "reserve db t0 cr (Inr req) h = ((200, BCacheId i), h1)"
    and "\<not> is_open (hstorage h) (hfs h) i" and "int i < 2 ^ 63"
  shows "\<exists>h3. commit_h db cr (nat_digits i) (upload_all db t1 cr i ups h1) = ((200, BEmpty), h3) \<and>
    find_h mac db t2 cr (rKey req) (rVersion req) h3 =
      ((200, BHit (signedArtifactURL mac cr i (t2 + artifactURLTTL) h3) (rKey req)), h3) \<and>
    fst (get_h db t3 (nat_digits i) h3) = (200, BFile (Some (concat ds)))"
proof -
  let ?c = "(ToCache req)\<lparr>cRepo := Repo cr, CreatedAt := t0, UsedAt := t0, ID := i\<rparr>"
  let ?sz = "int (length (concat ds))"
  let ?ops = "map (\<lambda>(off, d). BWrite i off (d, None)) ups"
  obtain d where h1: "h1 = h\<lparr>hdb := d\<rparr>" and none: "entries (hdb h) i = None"
    and d: "entries d = (entries (hdb h))(i := Some ?c)"
    using reserve_ok [OF assms(1,2,11)] by blast
  obtain a b where ab: "ds = a # b" using assms(5) by (cases ds) auto
  then have "0 < ?sz" using assms(4) by (cases a) auto
  then have c: "cRepo ?c = Repo cr" "\<not> Complete ?c" "ID ?c = i" "cSize ?c = ?sz" "cKey ?c = rKey req" "cVersion ?c = rVersion req"
    using assms(8) by (simp_all add: ToCache_def)
  note ok = pieces_list_all [OF assms(4,6,7), of i]
  have pre: "open_err h1 = None" "entries (hdb h1) i = Some (?c\<lparr>UsedAt := t0\<rparr>)" by (simp_all add: h1 d assms(2))
  obtain d' u where up: "upload_all db t1 cr i ups h1 =
        h1\<lparr>hdb := d', hfs := fold (run_blob (hstorage h1)) ?ops (hfs h1)\<rparr>"
      and d': "entries d' = (entries (hdb h1))(i := Some (?c\<lparr>UsedAt := u\<rparr>))"
    using upload_all_ok [OF assms(1) c(1-3) assms(13) ok [THEN conjunct1] pre] by blast
  let ?s = "fold (run_blob (hstorage h)) ?ops (hfs h)"
  let ?h2 = "h\<lparr>hdb := d', hfs := ?s\<rparr>"
  have h2: "upload_all db t1 cr i ups h1 = ?h2" unfolding up by (simp add: h1)
  note cm = upload_commit [OF assms(3,4,5,6,7,12) ok [THEN conjunct2] fold_all_blob refl refl]
  let ?c2 = "?c\<lparr>UsedAt := u\<rparr>"
  let ?c3 = "?c2\<lparr>cSize := ?sz, Complete := True\<rparr>"
  let ?h3 = "?h2\<lparr>hfs := snd (Commit (hstorage ?h2) i (cSize ?c2) (hfs ?h2)), hdb := db_update db i ?c3 (hdb ?h2)\<rparr>"
  have e2: "entries (hdb ?h2) i = Some ?c2" using d' by simp
  have w: "fst (Commit (hstorage ?h2) i (cSize ?c2) (hfs ?h2)) = Inr ?sz" using cm c(4) by simp
  have r: "commit_h db cr (nat_digits i) ?h2 = ((200, BEmpty), ?h3)"
    by (rule commit_h_ok [OF assms(1) _ e2 _ _ _ assms(13) w]) (use assms(2) c in simp_all)
  have e3: "entries (hdb ?h3) = (entries (hdb h))(i := Some ?c3)"
    using law_update [OF assms(1), of "hdb ?h2" i ?c3] e2 d' d by (simp add: h1 fun_eq_iff)
  have only: "e = ?c3" if "entries (hdb ?h3) j = Some e" "cRepo e = Repo cr" "cKey e = rKey req"
      "cVersion e = rVersion req" "Complete e" for j e
    using that e3 assms(9) law_find_one [OF assms(1), where P =
        "\<lambda>c. cRepo c = Repo cr \<and> cKey c = rKey req \<and> cVersion c = rVersion req \<and> Complete c = True" and f = CreatedAt and d = "hdb h"]
    unfolding findExactCache_def by (auto split: if_splits)
  have f: "findCache db (hdb ?h3) (Repo cr) [rKey req] (rVersion req) = Some ?c3"
    by (rule find_only_complete [OF assms(1), where i = i]) (use e3 c only in \<open>auto simp: restorable_def\<close>)
  have sv: "Serve (hstorage ?h3) i (hfs ?h3) = Some (concat ds)" using cm c(4) by simp
  have "find_h mac db t2 cr (rKey req) (rVersion req) ?h3 =
      ((200, BHit (signedArtifactURL mac cr (ID ?c3) (t2 + artifactURLTTL) ?h3) (cKey ?c3)), ?h3)"
    by (rule find_h_hit [OF _ assms(10) f]) (use assms(2) sv c in simp_all)
  moreover have "fst (get_h db t3 (nat_digits i) ?h3) = (200, BFile (Some (concat ds)))"
    by (rule get_h_serves [OF assms(13) sv])
  ultimately show ?thesis using r c unfolding h2 by (intro exI [of _ ?h3]) simp
qed

section \<open>Repositories are kept apart\<close>

text \<open>The requests a job's bearer token opens, under both versions of the API.\<close>

datatype bearer_op =
    OpFind string string
  | OpReserve "go_error + cache_request"
  | OpUpload string string reader
  | OpCommit string
  | OpCreate "go_error + string \<times> string"
  | OpFinalize "go_error + string \<times> string \<times> string \<times> string"
  | OpDownload "go_error + string \<times> string \<times> string list \<times> string list"

fun run_bearer ::
  "(string \<Rightarrow> string \<Rightarrow> string) \<Rightarrow> 'db store_ops \<Rightarrow> int \<Rightarrow> JobCredential \<Rightarrow> bearer_op \<Rightarrow> 'db handler \<Rightarrow>
   response \<times> 'db handler" where
  "run_bearer mac db now cr (OpFind keys version) h = find_h mac db now cr keys version h"
| "run_bearer mac db now cr (OpReserve req) h = reserve db now cr req h"
| "run_bearer mac db now cr (OpUpload i rg rd) h = upload db now cr i rg rd h"
| "run_bearer mac db now cr (OpCommit i) h = commit_h db cr i h"
| "run_bearer mac db now cr (OpCreate req) h = v2CreateCacheEntry mac db now cr req h"
| "run_bearer mac db now cr (OpFinalize req) h = v2FinalizeCacheEntryUpload db cr req h"
| "run_bearer mac db now cr (OpDownload req) h = v2GetCacheEntryDownloadURL mac db now cr req h"

text \<open>An entry and all that is seen of its blob are as they were.\<close>

definition untouched :: "('db \<Rightarrow> nat \<Rightarrow> cache option) \<Rightarrow> nat \<Rightarrow> 'db handler \<Rightarrow> 'db handler \<Rightarrow> bool" where
  "untouched entries i h h' =
     (entries (hdb h') i = entries (hdb h) i \<and>
      view_of (hstorage h) (hfs h') i = view_of (hstorage h) (hfs h) i)"

lemma untouched_refl [simp]: "untouched entries i h h"
  by (simp add: untouched_def)

lemma insert_untouched:
  assumes "store_laws db entries" and "entries (hdb h) i \<noteq> None"
  shows "untouched entries i h (snd (insertCache db c h))"
proof -
  obtain j d where ins: "db_insert db c (hdb h) = (j, d)" by (cases "db_insert db c (hdb h)")
  note l = law_insert [OF assms(1) ins]
  then have "j \<noteq> i" "entries d j \<noteq> None" using assms(2) by auto
  with l law_update [OF assms(1), of d j] show ?thesis
    by (simp add: insertCache_def ins Let_def untouched_def)
qed

lemma delete_untouched:
  assumes "store_laws db entries" and "j \<noteq> i"
  shows "untouched entries i h (h\<lparr>hdb := db_delete db j (hdb h)\<rparr>)"
  using assms(2) law_delete [OF assms(1)] by (simp add: untouched_def)

lemma commit_untouched:
  assumes "store_laws db entries" and "store_ok (hstorage h) (hfs h)" and "entries (hdb h) (ID c) \<noteq> None" and "ID c \<noteq> i"
  shows "untouched entries i h (snd (commitCache db c h))"
proof -
  obtain r s where cm: "Commit (hstorage h) (ID c) (cSize c) (hfs h) = (r, s)"
    by (cases "Commit (hstorage h) (ID c) (cSize c) (hfs h)")
  have "view_of (hstorage h) s i = view_of (hstorage h) (hfs h) i"
    using fs_blobs.com_view [OF assms(2), of "ID c" "cSize c" i] assms(4) by (simp add: cm)
  then show ?thesis using law_update [OF assms(1,3)] assms(4)
    by (cases r) (simp_all add: commitCache_def cm untouched_def Let_def split: option.splits)
qed

lemma parse_int_nonneg: "parse_int s = Some i \<Longrightarrow> CHR ''-'' \<notin> set s \<Longrightarrow> 0 \<le> i"
  by (auto simp: parse_int_def Let_def split: list.splits option.splits if_splits)

lemma parseContentRange_good:
  assumes "parseContentRange s = Inr (start, stop)"
  shows "good_offset start"
proof -
  obtain u1 r b where 1: "str_cut (trim_prefix ''bytes '' s) ''/'' = (u1, r, b)" by (metis prod_cases3)
  obtain s1 s2 b2 where 2: "str_cut u1 ''-'' = (s1, s2, b2)" by (metis prod_cases3)
  have p: "parse_int s1 = Some start"
    using assms by (simp add: parseContentRange_def 1 2 split: option.splits)
  have "CHR ''-'' \<notin> set s1"
    using 2 by (auto simp: str_cut_char split: if_splits dest: set_takeWhileD)
  with p parse_int_nonneg parse_int_bound show ?thesis by (fastforce simp: good_offset_def in_i64_def)
qed

lemma write_untouched:
  assumes "store_laws db entries" and "store_ok (hstorage h) (hfs h)" and "good_offset off" and "c \<noteq> i"
    and "ids_match (entries (hdb h))" and "j \<noteq> i"
  shows "untouched entries i h (snd (touchCache db now j b (h\<lparr>hfs := snd (CacheStorage.Write (hstorage h) c off rd (hfs h))\<rparr>)))"
proof -
  let ?s = "snd (CacheStorage.Write (hstorage h) c off rd (hfs h))"
  have v: "view_of (hstorage h) ?s i = view_of (hstorage h) (hfs h) i"
    using fs_blobs.put_view [OF assms(2,3), of c rd i] assms(4) by simp
  show ?thesis
  proof (cases "db_get db (hdb h) j")
    case None
    with v show ?thesis by (simp add: touchCache_def untouched_def split: option.splits)
  next
    case (Some e)
    then have e: "entries (hdb h) j = Some e" using law_get [OF assms(1)] by metis
    then have "ID e = j" using assms(5) by (simp add: ids_match_def)
    with law_update [OF assms(1), of "hdb h" j] e v assms(6) Some show ?thesis
      by (simp add: touchCache_def untouched_def split: option.splits)
  qed
qed

lemma reserved_entry_own:
  assumes "store_laws db entries" and "ids_match (entries (hdb h))" and "reserved_entry db cr p h = Inr (j, c)"
  shows "cRepo c = Repo cr \<and> ID c = nat j \<and> entries (hdb h) (nat j) = Some c"
  using assms(2,3) law_get [OF assms(1)]
  by (auto simp: reserved_entry_def get_entry_def ids_match_def split: option.splits if_splits)

lemma findCache_own:
  assumes "store_laws db entries" and "findCache db d repo keys version = Some c"
  shows "cRepo c = repo \<and> (\<exists>j. entries d j = Some c)"
  using findCache_spec [OF assms(1), where d = d and repo = repo and keys = keys and version = version] by (auto simp: assms(2) best_for_def restorable_def)

lemma lookup_untouched:
  assumes "store_laws db entries" and "ids_match (entries (hdb h))" and "entries (hdb h) i = Some e" and "cRepo e \<noteq> repo"
  shows "untouched entries i h (snd (lookupCache db repo ks version h))"
proof (cases "findCache db (hdb h) repo ks version")
  case None
  then show ?thesis by (simp add: lookupCache_def)
next
  case (Some c)
  obtain j where "cRepo c = repo" "entries (hdb h) j = Some c" using findCache_own [OF assms(1) Some] by blast
  with assms(2-4) have "ID c \<noteq> i" unfolding ids_match_def by (metis option.inject)
  from delete_untouched [OF assms(1) this] show ?thesis by (simp add: lookupCache_def Some)
qed

lemma upload_untouched:
  assumes "store_laws db entries" and "ids_match (entries (hdb h))" and "store_ok (hstorage h) (hfs h)"
    and "entries (hdb h) i = Some e" and "cRepo e \<noteq> Repo cr"
  shows "untouched entries i h (snd (upload db now cr p rg rd h))"
proof (cases "reserved_entry db cr p h")
  case (Inr x)
  obtain j c where x: "x = (j, c)" by (cases x)
  note own = reserved_entry_own [OF assms(1,2) Inr [unfolded x]]
  then have j: "nat j \<noteq> i" "ID c = nat j" using assms(4,5) by auto
  show ?thesis
  proof (cases "parseContentRange rg")
    case r: (Inr y)
    obtain start stop where y: "y = (start, stop)" by (cases y)
    let ?s = "snd (CacheStorage.Write (hstorage h) (nat j) start rd (hfs h))"
    have g: "good_offset start" using parseContentRange_good r y by simp
    have "view_of (hstorage h) ?s i = view_of (hstorage h) (hfs h) i"
      using fs_blobs.put_view [OF assms(3) g, of "nat j" rd i] j by simp
    moreover have "untouched entries i h (snd (touchCache db now (nat j) False (h\<lparr>hfs := ?s\<rparr>)))"
      by (rule write_untouched [OF assms(1,3) g j(1) assms(2) j(1)])
    ultimately show ?thesis
      by (auto simp: upload_def Inr x r y j untouched_def split: prod.splits option.splits)
  qed (simp add: upload_def Inr x)
qed (simp add: upload_def)

lemma commit_h_untouched:
  assumes "store_laws db entries" and "ids_match (entries (hdb h))" and "store_ok (hstorage h) (hfs h)"
    and "entries (hdb h) i = Some e" and "cRepo e \<noteq> Repo cr"
  shows "untouched entries i h (snd (commit_h db cr p h))"
proof (cases "reserved_entry db cr p h")
  case (Inr x)
  obtain j c where x: "x = (j, c)" by (cases x)
  note own = reserved_entry_own [OF assms(1,2) Inr [unfolded x]]
  then have j: "entries (hdb h) (ID c) \<noteq> None" "ID c \<noteq> i" using assms(4,5) by auto
  from commit_untouched [OF assms(1,3) j] show ?thesis
    by (simp add: commit_h_def Inr x split_beta split: option.splits)
qed (simp add: commit_h_def)

lemma finalize_untouched:
  assumes "store_laws db entries" and "ids_match (entries (hdb h))" and "store_ok (hstorage h) (hfs h)"
    and "entries (hdb h) i = Some e" and "cRepo e \<noteq> Repo cr"
  shows "untouched entries i h (snd (v2FinalizeCacheEntryUpload db cr req h))"
proof (cases req)
  case (Inr x)
  obtain key version s1 s2 where x: "x = (key, version, s1, s2)" by (metis prod_cases4)
  let ?P = "\<lambda>c. cRepo c = Repo cr \<and> cKey c = key \<and> cVersion c = version \<and> Complete c = False"
  show ?thesis
  proof (cases "findExactCache db (hdb h) (Repo cr) key version False")
    case None
    then show ?thesis by (simp add: v2FinalizeCacheEntryUpload_def Inr x split: option.splits)
  next
    case (Some c)
    obtain j where own: "cRepo c = Repo cr" "entries (hdb h) j = Some c"
      using law_find_one [OF assms(1), where P = ?P and f = UsedAt and d = "hdb h"] Some by (auto simp: findExactCache_def)
    then have "ID c = j" using assms(2) by (simp add: ids_match_def)
    then have c: "entries (hdb h) (ID (c\<lparr>cSize := n\<rparr>)) \<noteq> None" "ID (c\<lparr>cSize := n\<rparr>) \<noteq> i" for n
      using own assms(4,5) by auto
    from commit_untouched [OF assms(1,3) c] Some show ?thesis
      by (simp add: v2FinalizeCacheEntryUpload_def Inr x split_beta split: option.splits)
  qed
qed (simp add: v2FinalizeCacheEntryUpload_def)

lemma run_bearer_untouched:
  assumes "store_laws db entries" and "ids_match (entries (hdb h))" and "store_ok (hstorage h) (hfs h)"
    and "entries (hdb h) i = Some e" and "cRepo e \<noteq> Repo cr"
  shows "untouched entries i h (snd (run_bearer mac db now cr op h))"
proof -
  note lk = lookup_untouched [OF assms(1,2,4,5)]
  have ins: "untouched entries i h (snd (insertCache db c h))" for c
    using insert_untouched [OF assms(1)] assms(4) by simp
  show ?thesis
  proof (cases op)
    case (OpFind keys version)
    then show ?thesis using lk [of "split_at CHR '','' keys" version]
      by (simp add: find_h_def split_beta split: option.splits)
  next
    case (OpReserve req)
    then show ?thesis using ins by (simp add: reserve_def split_beta split: sum.splits option.splits)
  next
    case (OpCreate req)
    then show ?thesis using ins
      by (simp add: v2CreateCacheEntry_def split_beta split: sum.splits option.splits)
  next
    case (OpDownload req)
    then show ?thesis using lk
      by (simp add: v2GetCacheEntryDownloadURL_def split_beta split: sum.splits option.splits)
  qed (use upload_untouched commit_h_untouched finalize_untouched assms in simp_all)
qed

section \<open>Properties\<close>

definition demo_cred :: JobCredential where
  "demo_cred = \<lparr>Repo = ''o/r'', Results = [], InsecureTLS = False, PublicURL = []\<rparr>"

definition demo_handler :: "mem_store handler" where
  "demo_handler = \<lparr>hdb = (0, []), hfs = empty_fs, hstorage = demo_storage, open_err = None, creds = [],
     internalSecret = [], secret = ''s'', externalURL = ''http://h'', gcAt = 0\<rparr>"

definition demo_entry :: "nat \<Rightarrow> string \<Rightarrow> bool \<Rightarrow> int \<Rightarrow> cache" where
  "demo_entry i k cmpl t = \<lparr>ID = i, cRepo = ''o/r'', cKey = k, cVersion = ''v'', cSize = 4, Complete = cmpl, UsedAt = t, CreatedAt = t\<rparr>"

definition demo_full :: "mem_store handler" where
  "demo_full = demo_handler\<lparr>hdb := (2, [(1, demo_entry 1 ''ka'' True 10), (2, demo_entry 2 ''kb'' True 20)])\<rparr>"

lemma demo_full_ids: "ids_match (mem_get (hdb demo_full))"
  by (auto simp: ids_match_def mem_get_def demo_full_def demo_entry_def split: if_splits)

lemma signed_accept:
  assumes "in_i64 (int i)" and "in_i64 e" and "now \<le> e" and "computeSignature mac p (int i) e h \<noteq> []"
  shows "fst (signedAuth mac db now p (nat_digits i) (itoa e) (computeSignature mac p (int i) e h) handle h) = fst (handle h)"
proof -
  have p: "parse_int (nat_digits i) = Some (int i)" using parse_int_itoa [OF assms(1)] itoa_nat by metis
  have "parse_int (itoa e) = Some e" using assms(2) by (rule parse_int_itoa)
  moreover from this have "itoa e \<noteq> []" by (auto simp: parse_int_def)
  ultimately show ?thesis using assms(3,4) by (simp add: signedAuth_def p split_beta)
qed

text \<open>
  C13: what a job saves it restores: an entry reserved, uploaded in pieces in any order and committed is
  found under its key, and the URL found, followed before it expires, serves exactly what was uploaded.
\<close>

theorem cache_roundtrip:
  assumes "store_laws db entries" and "open_err h = None" and "store_ok (hstorage h) (hfs h)"
    and "list_all (\<lambda>d. d \<noteq> []) ds" and "ds \<noteq> []" and "int (length (concat ds)) < 2 ^ 63"
    and "mset ups = mset (pieces_at 0 ds)" and "rSize req = int (length (concat ds))"
    and "findExactCache db (hdb h) (Repo cr) (rKey req) (rVersion req) True = None"
    and "CHR '','' \<notin> set (rKey req)"
    and "reserve db t0 cr (Inr req) h = ((200, BCacheId i), h1)"
    and "\<not> is_open (hstorage h) (hfs h) i" and "int i < 2 ^ 63"
    and "t3 \<le> t2 + artifactURLTTL" and "in_i64 (t2 + artifactURLTTL)" and "\<forall>k m. mac k m \<noteq> []"
  shows "\<exists>h3. commit_h db cr (nat_digits i) (upload_all db t1 cr i ups h1) = ((200, BEmpty), h3) \<and>
    find_h mac db t2 cr (rKey req) (rVersion req) h3 =
      ((200, BHit (signedArtifactURL mac cr i (t2 + artifactURLTTL) h3) (rKey req)), h3) \<and>
    fst (signedAuth mac db t3 [] (nat_digits i) (itoa (t2 + artifactURLTTL))
      (computeSignature mac [] (int i) (t2 + artifactURLTTL) h3) (get_h db t3 (nat_digits i)) h3) =
      (200, BFile (Some (concat ds)))"
proof -
  obtain h3 where h3: "commit_h db cr (nat_digits i) (upload_all db t1 cr i ups h1) = ((200, BEmpty), h3)"
      "find_h mac db t2 cr (rKey req) (rVersion req) h3 =
        ((200, BHit (signedArtifactURL mac cr i (t2 + artifactURLTTL) h3) (rKey req)), h3)"
      "fst (get_h db t3 (nat_digits i) h3) = (200, BFile (Some (concat ds)))"
    using save_restore [OF assms(1-13), where mac = mac] by blast
  have "fst (signedAuth mac db t3 [] (nat_digits i) (itoa (t2 + artifactURLTTL))
      (computeSignature mac [] (int i) (t2 + artifactURLTTL) h3) (get_h db t3 (nat_digits i)) h3) =
      fst (get_h db t3 (nat_digits i) h3)"
    by (rule signed_accept) (use assms(13-16) in \<open>simp_all add: in_i64_def computeSignature_def\<close>)
  with h3 show ?thesis by auto
qed

theorem cache_roundtrip_witness:
  "\<exists>h1 h3. reserve mem_ops 1 demo_cred (Inr \<lparr>rKey = ''k'', rVersion = ''v'', rSize = 4\<rparr>) demo_handler = ((200, BCacheId 1), h1) \<and>
     commit_h mem_ops demo_cred (nat_digits 1) (upload_all mem_ops 2 demo_cred 1 [(2, ''cd''), (0, ''ab'')] h1) =
       ((200, BEmpty), h3) \<and>
     fst (signedAuth (\<lambda>k m. CHR ''m'' # m) mem_ops 4 [] (nat_digits 1) (itoa (3 + artifactURLTTL))
       (computeSignature (\<lambda>k m. CHR ''m'' # m) [] (int 1) (3 + artifactURLTTL) h3) (get_h mem_ops 4 (nat_digits 1)) h3) =
       (200, BFile (Some ''abcd''))"
proof -
  let ?req = "\<lparr>rKey = ''k'', rVersion = ''v'', rSize = 4\<rparr>"
  let ?h1 = "snd (reserve mem_ops 1 demo_cred (Inr ?req) demo_handler)"
  have r: "reserve mem_ops 1 demo_cred (Inr ?req) demo_handler = ((200, BCacheId 1), ?h1)"
    by (simp add: reserve_def insertCache_def demo_handler_def mem_ops_def ToCache_def Let_def)
  have m: "mset [(2, ''cd''), (0, ''ab'')] = mset (pieces_at 0 [''ab'', ''cd''])" by simp
  have f: "findExactCache mem_ops (hdb demo_handler) (Repo demo_cred) (rKey ?req) (rVersion ?req) True = None"
    by (simp add: findExactCache_def mem_ops_def demo_handler_def mem_find_def mem_best_def)
  have o: "\<not> is_open (hstorage demo_handler) (hfs demo_handler) 1"
    by (simp add: is_open_def tempDir_def empty_fs_def demo_storage_def demo_handler_def)
  have s: "store_ok (hstorage demo_handler) (hfs demo_handler)" by (simp add: demo_handler_def empty_store_ok)
  have e: "open_err demo_handler = None" by (simp add: demo_handler_def)
  have t: "(4 :: int) \<le> 3 + artifactURLTTL" "in_i64 (3 + artifactURLTTL)" by (simp_all add: artifactURLTTL_def in_i64_def)
  from cache_roundtrip [OF mem_laws e s _ _ _ m _ f _ r o _ t, where mac = "\<lambda>k m. CHR ''m'' # m" and ?t1.0 = 2] r
  show ?thesis by auto
qed

text \<open>The entry chosen for a list of keys: the best of the first key that has one.\<close>

definition chosen :: "(nat \<Rightarrow> cache option) \<Rightarrow> string \<Rightarrow> string list \<Rightarrow> string \<Rightarrow> cache \<Rightarrow> bool" where
  "chosen es repo keys version c =
     (\<exists>pre k post. keys = pre @ k # post \<and> best_for es repo version k c \<and>
        (\<forall>k'\<in>set pre. \<forall>i e. es i = Some e \<longrightarrow> \<not> restorable repo version k' e))"

text \<open>
  C15: a lookup restores the newest complete entry of the repository and version with exactly the first
  key that has an entry, or else the newest whose key it begins; nothing is found only when no key has
  one, or the one chosen lost its blob, and then that entry is all that is dropped.
\<close>

theorem lookup_restores_best:
  assumes "store_laws db entries" and "lookupCache db repo ks version h = (r, h')"
  shows "(case r of
      Some c \<Rightarrow> h' = h \<and> Exist (hstorage h) (ID c) (hfs h) \<and> chosen (entries (hdb h)) repo ks version c
    | None \<Rightarrow>
        (h' = h \<and> (\<forall>k\<in>set ks. \<forall>i e. entries (hdb h) i = Some e \<longrightarrow> \<not> restorable repo version k e)) \<or>
        (\<exists>c. chosen (entries (hdb h)) repo ks version c \<and> \<not> Exist (hstorage h) (ID c) (hfs h) \<and>
           hfs h' = hfs h \<and> entries (hdb h') = (entries (hdb h))(ID c := None)))"
proof (cases "findCache db (hdb h) repo ks version")
  case None
  with findCache_spec [OF assms(1), where d = "hdb h" and repo = repo and keys = ks and version = version] assms(2)
  show ?thesis by (simp add: lookupCache_def)
next
  case (Some c)
  with findCache_spec [OF assms(1), where d = "hdb h" and repo = repo and keys = ks and version = version]
  have c: "chosen (entries (hdb h)) repo ks version c" by (simp add: chosen_def)
  show ?thesis
  proof (cases "Exist (hstorage h) (ID c) (hfs h)")
    case True
    then show ?thesis using assms(2) c by (auto simp: lookupCache_def Some)
  next
    case False
    then have "r = None" "h' = h\<lparr>hdb := db_delete db (ID c) (hdb h)\<rparr>" using assms(2) by (simp_all add: lookupCache_def Some)
    then have "hfs h' = hfs h \<and> entries (hdb h') = (entries (hdb h))(ID c := None)"
      using law_delete [OF assms(1)] by simp
    with c False show ?thesis unfolding \<open>r = None\<close> option.case by blast
  qed
qed

theorem lookup_restores_best_witness:
  "chosen (mem_get (hdb demo_full)) ''o/r'' [''x'', ''k''] ''v'' (demo_entry 2 ''kb'' True 20)"
proof -
  let ?h = "demo_full\<lparr>hfs := put_file (filename demo_storage 2) ''x'' empty_fs\<rparr>"
  have "lookupCache mem_ops ''o/r'' [''x'', ''k''] ''v'' ?h = (Some (demo_entry 2 ''kb'' True 20), ?h)"
    by (simp add: lookupCache_def findExactCache_def mem_ops_def mem_find_def mem_best_def demo_full_def demo_handler_def
        demo_entry_def Exist_def has_prefix_def)
  from lookup_restores_best [OF mem_laws this] show ?thesis by simp
qed

text \<open>
  C3: a request with the token of one repository leaves the entries of every other alone, with what has
  been uploaded for them and what they serve, whatever it asks for.
\<close>

theorem repo_isolation:
  assumes "store_laws db entries" and "ids_match (entries (hdb h))" and "store_ok (hstorage h) (hfs h)"
    and "entries (hdb h) i = Some e" and "cRepo e \<noteq> Repo cr"
    and "run_bearer mac db now cr op h = (r, h')"
  shows "entries (hdb h') i = Some e \<and> view_of (hstorage h) (hfs h') i = view_of (hstorage h) (hfs h) i"
  using run_bearer_untouched [OF assms(1-5), of mac now op] assms(4,6) by (simp add: untouched_def)

theorem repo_isolation_witness:
  "mem_get (hdb (snd (run_bearer (\<lambda>k m. m) mem_ops 5 (demo_cred\<lparr>Repo := ''e/v''\<rparr>) (OpCommit ''2'') demo_full))) 2 =
     Some (demo_entry 2 ''kb'' True 20)"
proof -
  have e: "mem_get (hdb demo_full) 2 = Some (demo_entry 2 ''kb'' True 20)" by (simp add: mem_get_def demo_full_def)
  have r: "cRepo (demo_entry 2 ''kb'' True 20) \<noteq> Repo (demo_cred\<lparr>Repo := ''e/v''\<rparr>)" by (simp add: demo_entry_def)
  have s: "store_ok (hstorage demo_full) (hfs demo_full)" by (simp add: demo_full_def demo_handler_def empty_store_ok)
  show ?thesis
    using repo_isolation [OF mem_laws demo_full_ids s e r prod.collapse [symmetric]] by blast
qed







end
