(* ===== verification/KubePod.thy ===== *)
theory KubePod
  imports GoUtf8
begin

text \<open>
  The Pod of a job, \<^verbatim>\<open>act/container/kubernetes/pod_spec.go\<close> with the namespace and owner of
  \<^verbatim>\<open>client.go\<close>: names Kubernetes accepts, the volume every container shares, and the specification built
  from a job's input. A record of the API holds the fields the code sets. \<^verbatim>\<open>resource.ParseQuantity\<close> and
  the table of lower case letters are arguments; the writers of the input are left out. A duration is its
  nanoseconds; a conversion of seconds to an int32 they do not fit is the platform's, and wraps here.
\<close>

section \<open>Data\<close>

record PodResources =
  RequestsCPU :: string
  RequestsMemory :: string
  LimitsCPU :: string
  LimitsMemory :: string

record PodSecurityContext =
  RunAsNonRoot :: "bool option"
  RunAsUser :: "int option"
  FSGroup :: "int option"

record PodOwner =
  OwnerName :: string
  OwnerUID :: string
  OwnerNamespace :: string

record Toleration =
  TolKey :: string
  TolOperator :: string
  TolValue :: string
  TolEffect :: string

record ServiceHealthCheck =
  Test :: "string list"
  Interval :: int
  Timeout :: int
  StartPeriod :: int
  Retries :: int

record ServiceInput =
  SvcName :: string
  ContainerName :: string
  SvcImage :: string
  SvcEntrypoint :: "string list"
  SvcCmd :: "string list"
  SvcEnv :: "string list"
  HealthCheck :: ServiceHealthCheck

record PodInput =
  PodInputName :: string
  PodImage :: string
  Entrypoint :: "string list"
  Cmd :: "string list"
  WorkingDir :: string
  PodEnv :: "string list"
  AllocatePTY :: bool
  Services :: "ServiceInput list"
  MountPaths :: "string list"
  MaxLifetime :: int
  Owner :: "PodOwner option"
  Namespace :: string
  ServiceAccountName :: string
  ImagePullSecrets :: "string list"
  ImagePullPolicy :: string
  PodLabels :: env
  Annotations :: env
  NodeSelector :: env
  Tolerations :: "Toleration list"
  Resources :: PodResources
  SecurityContext :: PodSecurityContext
  Privileged :: bool
  TerminationGracePeriod :: int
  SchedulingTimeout :: int
  ServiceReadyTimeout :: int

text \<open>What the API server is sent.\<close>

record OwnerReference =
  RefAPIVersion :: string
  RefKind :: string
  RefName :: string
  RefUID :: string

record Probe =
  ProbeCommand :: "string list"
  PeriodSeconds :: int
  TimeoutSeconds :: int
  InitialDelaySeconds :: int
  FailureThreshold :: int

record VolumeMount =
  VolumeName :: string
  MountPath :: string
  SubPath :: string

record ContainerSecurity =
  PrivilegedFlag :: "bool option"
  CapAdd :: "string list"
  CapDrop :: "string list"

record 'q requirements =
  Requests :: "'q dict"
  Limits :: "'q dict"

record 'q Container =
  CName :: string
  CImage :: string
  CCommand :: "string list"
  CArgs :: "string list"
  CWorkingDir :: string
  CEnv :: "(string \<times> string) list"
  CPullPolicy :: string
  VolumeMounts :: "VolumeMount list"
  CResources :: "'q requirements"
  CSecurity :: "ContainerSecurity option"
  TTY :: bool
  Stdin :: bool
  ReadinessProbe :: "Probe option"

record 'q Pod =
  PName :: string
  PNamespace :: string
  PLabels :: env
  PAnnotations :: env
  OwnerReferences :: "OwnerReference list"
  RestartPolicy :: string
  Containers :: "'q Container list"
  Volumes :: "string list"
  PServiceAccount :: string
  PNodeSelector :: env
  PTolerations :: "Toleration list"
  PSecurity :: "PodSecurityContext option"
  PPullSecrets :: "string list"
  GraceSeconds :: "int option"
  ActiveDeadlineSeconds :: "int option"

section \<open>Durations\<close>

definition second :: int where "second = 1000000000"

definition maxDuration :: int where "maxDuration = 2 ^ 63 - 1"

text \<open>\<^verbatim>\<open>d.Round(time.Second).Seconds()\<close> as whole seconds, for a duration that is not negative.\<close>

definition round_seconds :: "int \<Rightarrow> int" where
  "round_seconds d =
     (let r = d mod second;
          d' = (if r + r < second then d - r else min maxDuration (d + second - r))
      in d' div second)"

definition i32 :: "int \<Rightarrow> int" where
  "i32 x = (x + 2 ^ 31) mod 2 ^ 32 - 2 ^ 31"

section \<open>Namespace and owner\<close>

definition resolveNamespace :: "string \<Rightarrow> string \<Rightarrow> string" where
  "resolveNamespace configured discovered =
     (if configured \<noteq> [] then configured else if discovered \<noteq> [] then discovered else ''default'')"

text \<open>The name and UID projected into the environment, and the service account's own namespace.\<close>

definition OwnerFromEnv :: "string \<Rightarrow> string \<Rightarrow> string \<Rightarrow> PodOwner option" where
  "OwnerFromEnv name uid namespace =
     (if name = [] \<or> uid = [] \<or> namespace = [] then None
      else Some \<lparr>OwnerName = name, OwnerUID = uid, OwnerNamespace = namespace\<rparr>)"

definition ownerReferences :: "PodOwner option \<Rightarrow> string \<Rightarrow> OwnerReference list" where
  "ownerReferences owner namespace =
     (case owner of
        None \<Rightarrow> []
      | Some o' \<Rightarrow>
          if OwnerName o' = [] \<or> OwnerUID o' = [] \<or> OwnerNamespace o' = [] then []
          else if OwnerNamespace o' \<noteq> namespace then []
          else [\<lparr>RefAPIVersion = ''v1'', RefKind = ''Pod'', RefName = OwnerName o', RefUID = OwnerUID o'\<rparr>])"

section \<open>Probes\<close>

definition Declared :: "ServiceHealthCheck \<Rightarrow> bool" where
  "Declared c = (0 < length (Test c))"

definition probe_command :: "string list \<Rightarrow> string list" where
  "probe_command test =
     (if hd test = ''CMD-SHELL'' then [''/bin/sh'', ''-c'', join '' '' (tl test)]
      else if hd test = ''CMD'' then tl test
      else if hd test = ''NONE'' then []
      else test)"

definition readinessProbe :: "ServiceHealthCheck \<Rightarrow> Probe option" where
  "readinessProbe check =
     (if \<not> Declared check then None
      else (let command = probe_command (Test check)
            in if command = [] then None
               else Some \<lparr>ProbeCommand = command,
                 PeriodSeconds = (if 0 < Interval check then i32 (round_seconds (Interval check)) else 0),
                 TimeoutSeconds = (if 0 < Timeout check then i32 (round_seconds (Timeout check)) else 0),
                 InitialDelaySeconds = (if 0 < StartPeriod check then i32 (round_seconds (StartPeriod check)) else 0),
                 FailureThreshold = (if 0 < Retries check then i32 (Retries check) else 0)\<rparr>))"

section \<open>Names\<close>

definition JobContainerName :: string where "JobContainerName = ''job''"
definition workspaceVolumeName :: string where "workspaceVolumeName = ''gitea-runner-workspace''"
definition maxContainerName :: nat where "maxContainerName = 63"

definition label_char :: "char \<Rightarrow> bool" where
  "label_char c = ((97 \<le> byte c \<and> byte c \<le> 122) \<or> (48 \<le> byte c \<and> byte c \<le> 57) \<or> c = CHR ''-'')"

text \<open>A suffix never comes near the limit, so the limit less the room left for it is not negative.\<close>

definition trimContainerName :: "string \<Rightarrow> nat \<Rightarrow> string" where
  "trimContainerName name reserved =
     (let limit = maxContainerName - reserved;
          name = (if limit < length name then take limit name else name)
      in trim_right [CHR ''-''] name)"

definition serviceContainerName :: "(string \<Rightarrow> string) \<Rightarrow> string \<Rightarrow> string" where
  "serviceContainerName ulower i =
     (let name = trim [CHR ''-''] (replace_other_runes label_char ''-'' (ToLower ulower i));
          name = (if name = [] then ''service'' else name)
      in trimContainerName (''svc-'' @ name) 0)"

definition numbered :: "string \<Rightarrow> nat \<Rightarrow> string" where
  "numbered base n =
     (let suffix = ''-'' @ nat_digits n in trimContainerName base (length suffix) @ suffix)"

text \<open>The loop that counts up to a name not yet used; that it ends is shown below.\<close>

partial_function (option) free_name :: "string \<Rightarrow> string list \<Rightarrow> string \<Rightarrow> nat \<Rightarrow> string option" where
  [code]: "free_name base used name n =
     (if name \<in> set used then free_name base used (numbered base n) (Suc n) else Some name)"

fun assign_names :: "(string \<Rightarrow> string) \<Rightarrow> string list \<Rightarrow> ServiceInput list \<Rightarrow> ServiceInput list option" where
  "assign_names ulower used [] = Some []"
| "assign_names ulower used (s # ss) =
     (let base = serviceContainerName ulower (SvcName s)
      in case free_name base used base 2 of
           None \<Rightarrow> None
         | Some name \<Rightarrow> map_option ((#) (s\<lparr>ContainerName := name\<rparr>)) (assign_names ulower (name # used) ss))"

definition AssignServiceContainerNames ::
  "(string \<Rightarrow> string) \<Rightarrow> ServiceInput list \<Rightarrow> ServiceInput list option" where
  "AssignServiceContainerNames ulower services = assign_names ulower [JobContainerName] services"

definition pod_name_char :: "char \<Rightarrow> bool" where
  "pod_name_char c = (label_char c \<or> c = CHR ''.'')"

definition PodName :: "(string \<Rightarrow> string) \<Rightarrow> string \<Rightarrow> string" where
  "PodName ulower name =
     (let name = trim [CHR ''.'', CHR ''-''] (replace_other_runes pod_name_char ''-'' (ToLower ulower name))
      in if name = [] then ''gitea-runner-job'' else name)"

section \<open>Parts of the specification\<close>

definition subPathFor :: "string \<Rightarrow> string" where
  "subPathFor p =
     (let trimmed = trim [CHR ''/''] p
      in if trimmed = [] then ''root'' else map (\<lambda>c. if c = CHR ''/'' then CHR ''_'' else c) trimmed)"

fun mounts_from :: "string list \<Rightarrow> string list \<Rightarrow> VolumeMount list" where
  "mounts_from seen [] = []"
| "mounts_from seen (p # ps) =
     (if p = [] \<or> p \<in> set seen then mounts_from seen ps
      else \<lparr>VolumeName = workspaceVolumeName, MountPath = p, SubPath = subPathFor p\<rparr> # mounts_from (p # seen) ps)"

definition buildVolumeMounts :: "string list \<Rightarrow> VolumeMount list" where
  "buildVolumeMounts paths = mounts_from [] paths"

definition buildEnv :: "string list \<Rightarrow> (string \<times> string) list" where
  "buildEnv ev = List.map_filter
     (\<lambda>entry. case str_cut entry ''='' of (name, v, found) \<Rightarrow>
        if \<not> found \<or> name = [] then None else Some (name, v)) ev"

definition no_requirements :: "'q requirements" where
  "no_requirements = \<lparr>Requests = [], Limits = []\<rparr>"

text \<open>One field: where its quantity goes, under which resource, and how an error names it.\<close>

type_synonym 'q put_quantity = "'q \<Rightarrow> 'q requirements \<Rightarrow> 'q requirements"

definition put_request :: "string \<Rightarrow> 'q put_quantity" where
  "put_request name q r = r\<lparr>Requests := dict_put name q (Requests r)\<rparr>"

definition put_limit :: "string \<Rightarrow> 'q put_quantity" where
  "put_limit name q r = r\<lparr>Limits := dict_put name q (Limits r)\<rparr>"

definition resource_fields :: "PodResources \<Rightarrow> (string \<times> 'q put_quantity \<times> string) list" where
  "resource_fields res =
     [(RequestsCPU res, put_request ''cpu'', ''requests_cpu''),
      (RequestsMemory res, put_request ''memory'', ''requests_memory''),
      (LimitsCPU res, put_limit ''cpu'', ''limits_cpu''),
      (LimitsMemory res, put_limit ''memory'', ''limits_memory'')]"

fun fill_resources ::
  "(string \<Rightarrow> go_error + 'q) \<Rightarrow> (string \<times> 'q put_quantity \<times> string) list \<Rightarrow> 'q requirements \<Rightarrow>
   go_error + 'q requirements" where
  "fill_resources parse [] r = Inr r"
| "fill_resources parse ((v, put, lbl) # fs) r =
     (if v = [] then fill_resources parse fs r
      else case parse v of
             Inl e \<Rightarrow> Inl (Wrap (''kubernetes.resources.'' @ lbl @ '' '' @ gq v @ '' is not a valid quantity'') e)
           | Inr q \<Rightarrow> fill_resources parse fs (put q r))"

definition buildResources :: "(string \<Rightarrow> go_error + 'q) \<Rightarrow> PodResources \<Rightarrow> go_error + 'q requirements" where
  "buildResources parse res = fill_resources parse (resource_fields res) no_requirements"

definition buildPodSecurityContext :: "PodSecurityContext \<Rightarrow> PodSecurityContext option" where
  "buildPodSecurityContext sc =
     (if RunAsNonRoot sc = None \<and> RunAsUser sc = None \<and> FSGroup sc = None then None else Some sc)"

definition buildContainerSecurityContext :: "bool \<Rightarrow> string list \<Rightarrow> string list \<Rightarrow> ContainerSecurity option" where
  "buildContainerSecurityContext privileged capAdd capDrop =
     (if \<not> privileged \<and> capAdd = [] \<and> capDrop = [] then None
      else Some \<lparr>PrivilegedFlag = (if privileged then Some True else None), CapAdd = capAdd, CapDrop = capDrop\<rparr>)"

section \<open>The Pod\<close>

definition job_container ::
  "PodInput \<Rightarrow> 'q requirements \<Rightarrow> VolumeMount list \<Rightarrow> string list \<Rightarrow> string list \<Rightarrow> 'q Container" where
  "job_container inp resources mounts capAdd capDrop =
     \<lparr>CName = JobContainerName, CImage = PodImage inp, CCommand = Entrypoint inp, CArgs = Cmd inp,
      CWorkingDir = WorkingDir inp, CEnv = buildEnv (PodEnv inp), CPullPolicy = ImagePullPolicy inp,
      VolumeMounts = mounts, CResources = resources,
      CSecurity = buildContainerSecurityContext (Privileged inp) capAdd capDrop,
      TTY = AllocatePTY inp, Stdin = AllocatePTY inp, ReadinessProbe = None\<rparr>"

definition service_container :: "PodInput \<Rightarrow> VolumeMount list \<Rightarrow> ServiceInput \<Rightarrow> 'q Container" where
  "service_container inp mounts service =
     \<lparr>CName = ContainerName service, CImage = SvcImage service, CCommand = SvcEntrypoint service, CArgs = SvcCmd service,
      CWorkingDir = [], CEnv = buildEnv (SvcEnv service), CPullPolicy = ImagePullPolicy inp,
      VolumeMounts = mounts, CResources = no_requirements,
      CSecurity = buildContainerSecurityContext (Privileged inp) [] [],
      TTY = False, Stdin = False, ReadinessProbe = readinessProbe (HealthCheck service)\<rparr>"

definition BuildPod ::
  "(string \<Rightarrow> string) \<Rightarrow> (string \<Rightarrow> go_error + 'q) \<Rightarrow> PodInput \<Rightarrow> string list \<Rightarrow> string list \<Rightarrow> go_error + 'q Pod" where
  "BuildPod ulower parse inp capAdd capDrop =
     (case buildResources parse (Resources inp) of
        Inl e \<Rightarrow> Inl e
      | Inr resources \<Rightarrow>
          (let mounts = buildVolumeMounts (MountPaths inp)
           in Inr \<lparr>PName = PodName ulower (PodInputName inp), PNamespace = Namespace inp,
                PLabels = maps_Copy [(''app.kubernetes.io/managed-by'', ''gitea-runner'')] (PodLabels inp),
                PAnnotations = Annotations inp, OwnerReferences = ownerReferences (Owner inp) (Namespace inp),
                RestartPolicy = ''Never'',
                Containers = job_container inp resources mounts capAdd capDrop # map (service_container inp mounts) (Services inp),
                Volumes = [workspaceVolumeName], PServiceAccount = ServiceAccountName inp,
                PNodeSelector = NodeSelector inp, PTolerations = Tolerations inp,
                PSecurity = buildPodSecurityContext (SecurityContext inp), PPullSecrets = ImagePullSecrets inp,
                GraceSeconds = (if 0 < TerminationGracePeriod inp then Some (round_seconds (TerminationGracePeriod inp)) else None),
                ActiveDeadlineSeconds = (if 0 < MaxLifetime inp then Some (round_seconds (MaxLifetime inp)) else None)\<rparr>))"

text \<open>\<^verbatim>\<open>NewPodEnvironment\<close>: the input with the namespace it is created in and the services named.\<close>

definition NewPodEnvironment :: "(string \<Rightarrow> string) \<Rightarrow> string \<Rightarrow> PodInput \<Rightarrow> PodInput option" where
  "NewPodEnvironment ulower client_namespace inp =
     map_option (\<lambda>ss. inp\<lparr>Namespace := (if Namespace inp = [] then client_namespace else Namespace inp), Services := ss\<rparr>)
       (AssignServiceContainerNames ulower (Services inp))"

section \<open>Facts about names\<close>

lemma nat_digits_no_minus: "CHR ''-'' \<notin> set (nat_digits n)"
  using nat_digits_digit [of "CHR ''-''" n] by (auto simp: digit_val_def)

lemma numbered_eq: "numbered base n = trimContainerName base (Suc (length (nat_digits n))) @ CHR ''-'' # nat_digits n"
  by (simp add: numbered_def Let_def)

lemma numbered_inj: "numbered base n = numbered base' m \<Longrightarrow> n = m"
proof -
  assume e: "numbered base n = numbered base' m"
  have t: "takeWhile (\<lambda>c. c \<noteq> CHR ''-'') (rev (numbered b k)) = rev (nat_digits k)" for b k
  proof -
    have "\<And>c. c \<in> set (rev (nat_digits k)) \<Longrightarrow> c \<noteq> CHR ''-''" using nat_digits_no_minus [of k] by auto
    from takeWhile_append2 [of "rev (nat_digits k)" "\<lambda>c. c \<noteq> CHR ''-''", OF this] show ?thesis
      by (simp add: numbered_eq)
  qed
  from t [of base n] t [of base' m] e have "nat_digits n = nat_digits m" by simp
  then show ?thesis by (metis digits_val_nat_digits option.inject)
qed

text \<open>Among as many numbered names as there are used ones, and one more, one is free.\<close>

lemma numbered_free: "\<exists>k\<le>length used. numbered base (n + k) \<notin> set used"
proof (rule ccontr)
  assume "\<not> ?thesis"
  then have sub: "(\<lambda>k. numbered base (n + k)) ` {..length used} \<subseteq> set used" by auto
  have "inj_on (\<lambda>k. numbered base (n + k)) {..length used}"
    by (rule inj_onI) (use numbered_inj in fastforce)
  then have "card ((\<lambda>k. numbered base (n + k)) ` {..length used}) = Suc (length used)" by (simp add: card_image)
  moreover have "card ((\<lambda>k. numbered base (n + k)) ` {..length used}) \<le> card (set used)"
    by (rule card_mono [OF _ sub]) simp
  ultimately show False using card_length [of used] by linarith
qed

lemma free_name_steps:
  "numbered base (n + k) \<notin> set used \<Longrightarrow>
     \<exists>r. free_name base used name n = Some r \<and> r \<notin> set used \<and> (r = name \<or> (\<exists>m\<le>n + k. r = numbered base m))"
proof (induction k arbitrary: name n)
  case 0
  then show ?case by (subst free_name.simps, subst free_name.simps) auto
next
  case (Suc k)
  show ?case
  proof (cases "name \<in> set used")
    case True
    from Suc have "numbered base (Suc n + k) \<notin> set used" by simp
    from Suc.IH [OF this, of "numbered base n"] obtain r where
      r: "free_name base used (numbered base n) (Suc n) = Some r" "r \<notin> set used"
        "r = numbered base n \<or> (\<exists>m\<le>Suc n + k. r = numbered base m)" by blast
    have "\<exists>m\<le>n + Suc k. r = numbered base m" using r(3) by (metis add_Suc add_Suc_right le_add1)
    with r(1,2) True show ?thesis by (subst free_name.simps) auto
  qed (subst free_name.simps, auto)
qed

lemma free_name_found:
  "\<exists>r. free_name base used base 2 = Some r \<and> r \<notin> set used \<and> (r = base \<or> (\<exists>m\<le>2 + length used. r = numbered base m))"
proof -
  obtain k where "k \<le> length used" "numbered base (2 + k) \<notin> set used" using numbered_free by blast
  then show ?thesis using free_name_steps [of base 2 k used base] by (meson add_left_mono le_trans)
qed

text \<open>A label of RFC 1123.\<close>

definition dns_label :: "string \<Rightarrow> bool" where
  "dns_label s =
     (s \<noteq> [] \<and> length s \<le> 63 \<and> list_all label_char s \<and> hd s \<noteq> CHR ''-'' \<and> last s \<noteq> CHR ''-'')"

lemma trim_right_head: "x \<notin> set cs \<Longrightarrow> \<exists>r. trim_right cs (x # s) = x # r"
proof -
  assume "x \<notin> set cs"
  obtain t where t: "x # s = trim_right cs (x # s) @ t" using trim_right_prefix by blast
  show ?thesis
  proof (cases "trim_right cs (x # s)")
    case Nil
    then have "\<forall>y\<in>set (rev (x # s)). y \<in> set cs" by (simp add: trim_right_def dropWhile_eq_Nil_conv)
    with \<open>x \<notin> set cs\<close> show ?thesis by simp
  qed (use t in auto)
qed

text \<open>What is cut down still begins with the \<^verbatim>\<open>s\<close> of its prefix.\<close>

lemma trimContainerName_label:
  assumes "list_all label_char (CHR ''s'' # s)" and "k \<le> 40"
  shows "\<exists>r. trimContainerName (CHR ''s'' # s) k = CHR ''s'' # r \<and> length (CHR ''s'' # r) \<le> 63 - k \<and>
    list_all label_char (CHR ''s'' # r) \<and> last (CHR ''s'' # r) \<noteq> CHR ''-''"
proof -
  have "0 < 63 - k" using assms(2) by simp
  then obtain n where n: "63 - k = Suc n" using gr0_implies_Suc by blast
  define t where "t = (if n < length s then take n s else s)"
  have t: "(if 63 - k < length (CHR ''s'' # s) then take (63 - k) (CHR ''s'' # s) else CHR ''s'' # s) = CHR ''s'' # t"
    and tl: "length (CHR ''s'' # t) \<le> 63 - k" and ts: "set t \<subseteq> set s"
    unfolding n by (auto simp: t_def dest: in_set_takeD)
  obtain r where r: "trim_right [CHR ''-''] (CHR ''s'' # t) = CHR ''s'' # r" using trim_right_head [of "CHR ''s''" "[CHR ''-'']" t] by auto
  have "length (CHR ''s'' # r) \<le> length (CHR ''s'' # t)" using trim_right_length [of "[CHR ''-'']" "CHR ''s'' # t"] r by simp
  moreover have "set (CHR ''s'' # r) \<subseteq> set (CHR ''s'' # s)" using set_trim_right [of "[CHR ''-'']" "CHR ''s'' # t"] r ts by auto
  moreover have "last (CHR ''s'' # r) \<noteq> CHR ''-''" using trim_right_last [of "[CHR ''-'']" "CHR ''s'' # t"] r by simp
  moreover have "trimContainerName (CHR ''s'' # s) k = CHR ''s'' # r"
    using t r by (simp add: trimContainerName_def maxContainerName_def Let_def)
  ultimately show ?thesis using tl assms(1) by (auto simp: list_all_iff)
qed

lemma serviceContainerName_label:
  "\<exists>r. serviceContainerName ulower i = CHR ''s'' # r \<and> dns_label (CHR ''s'' # r)"
proof -
  let ?n = "trim [CHR ''-''] (replace_other_runes label_char ''-'' (ToLower ulower i))"
  have "set ?n \<subseteq> Collect label_char"
  proof -
    have "set ?n \<subseteq> set (replace_other_runes label_char ''-'' (ToLower ulower i))"
      using set_trim_right set_trim_left unfolding trim_def by fastforce
    also have "\<dots> \<subseteq> Collect label_char" using replace_other_runes_set by (fastforce simp: label_char_def)
    finally show ?thesis .
  qed
  then have "list_all label_char (CHR ''s'' # ''vc-'' @ (if ?n = [] then ''service'' else ?n))"
    by (auto simp: list_all_iff label_char_def byte_def)
  from trimContainerName_label [OF this, of 0] show ?thesis
    by (auto simp: serviceContainerName_def dns_label_def Let_def)
qed

lemma length_nat_digits: "n < 10 ^ Suc k \<Longrightarrow> length (nat_digits n) \<le> Suc k"
proof (induction k arbitrary: n)
  case 0
  then show ?case by (simp add: nat_digits.simps)
next
  case (Suc k)
  then have "n div 10 < 10 ^ Suc k" by (simp add: less_mult_imp_div_less)
  from Suc.IH [OF this] show ?case by (subst nat_digits.simps) simp
qed

lemma nat_digits_label: "list_all label_char (nat_digits n)"
proof -
  have "label_char c" if "c \<in> set (nat_digits n)" for c
    using nat_digits_digit [OF that] by (auto simp: digit_val_def label_char_def byte_def Let_def split: if_splits)
  then show ?thesis by (simp add: list_all_iff)
qed

lemma numbered_label:
  assumes "list_all label_char (CHR ''s'' # s)" and "n < 10 ^ 30"
  shows "dns_label (numbered (CHR ''s'' # s) n)"
proof -
  have "length (nat_digits n) \<le> 30" using length_nat_digits [of n 29] assms(2) by simp
  then have l: "Suc (length (nat_digits n)) \<le> 40" by simp
  from trimContainerName_label [OF assms(1) l] obtain r where
    r: "trimContainerName (CHR ''s'' # s) (Suc (length (nat_digits n))) = CHR ''s'' # r"
      "length (CHR ''s'' # r) \<le> 63 - Suc (length (nat_digits n))" "list_all label_char (CHR ''s'' # r)" by blast
  have "last (nat_digits n) \<noteq> CHR ''-''" using nat_digits_no_minus last_in_set nat_digits_not_Nil by metis
  then show ?thesis using r l nat_digits_label [of n]
    by (auto simp: dns_label_def numbered_eq label_char_def)
qed

lemma assign_names_ok:
  "length used + length ss < 10 ^ 30 - 3 \<Longrightarrow>
     \<exists>ss'. assign_names ulower used ss = Some ss' \<and> map (\<lambda>s. s\<lparr>ContainerName := []\<rparr>) ss' = map (\<lambda>s. s\<lparr>ContainerName := []\<rparr>) ss \<and>
       distinct (map ContainerName ss') \<and> set (map ContainerName ss') \<inter> set used = {} \<and>
       list_all (\<lambda>s. dns_label (ContainerName s)) ss'"
proof (induction ss arbitrary: used)
  case (Cons s ss)
  obtain b where b: "serviceContainerName ulower (SvcName s) = CHR ''s'' # b" "dns_label (CHR ''s'' # b)"
    using serviceContainerName_label by blast
  obtain name where f: "free_name (CHR ''s'' # b) used (CHR ''s'' # b) 2 = Some name" "name \<notin> set used"
      "name = CHR ''s'' # b \<or> (\<exists>m\<le>2 + length used. name = numbered (CHR ''s'' # b) m)"
    using free_name_found by blast
  have "dns_label name"
  proof (cases "name = CHR ''s'' # b")
    case False
    with f(3) obtain m where m: "m \<le> 2 + length used" "name = numbered (CHR ''s'' # b) m" by blast
    then have "m < 10 ^ 30" using Cons.prems by simp
    from numbered_label [OF _ this, of b] b(2) m(2) show ?thesis by (simp add: dns_label_def)
  qed (use b(2) in simp)
  moreover from Cons.prems have "length (name # used) + length ss < 10 ^ 30 - 3" by simp
  from Cons.IH [OF this] obtain ss' where
    "assign_names ulower (name # used) ss = Some ss'"
    "map (\<lambda>s. s\<lparr>ContainerName := []\<rparr>) ss' = map (\<lambda>s. s\<lparr>ContainerName := []\<rparr>) ss" "distinct (map ContainerName ss')"
    "set (map ContainerName ss') \<inter> set (name # used) = {}" "list_all (\<lambda>s. dns_label (ContainerName s)) ss'" by blast
  ultimately show ?case using f b(1) by (intro exI [of _ "s\<lparr>ContainerName := name\<rparr> # ss'"]) auto
qed simp

section \<open>Facts about mounts\<close>

lemma mounts_from_spec:
  "distinct (map MountPath (mounts_from seen ps)) \<and> set (map MountPath (mounts_from seen ps)) = set ps - {[]} - set seen \<and>
   list_all (\<lambda>m. VolumeName m = workspaceVolumeName \<and> SubPath m = subPathFor (MountPath m)) (mounts_from seen ps)"
  by (induction seen ps rule: mounts_from.induct) auto

text \<open>A path below the root, spelled without an underscore.\<close>

definition plain_path :: "string \<Rightarrow> bool" where
  "plain_path p = (\<exists>q. p = CHR ''/'' # q \<and> q \<noteq> [] \<and> hd q \<noteq> CHR ''/'' \<and> last q \<noteq> CHR ''/'' \<and> CHR ''_'' \<notin> set q)"

lemma plain_path_trim:
  assumes "q \<noteq> []" "hd q \<noteq> CHR ''/''" "last q \<noteq> CHR ''/''"
  shows "trim [CHR ''/''] (CHR ''/'' # q) = q"
proof -
  obtain c r where q: "q = c # r" "c \<noteq> CHR ''/''" using assms(1,2) by (cases q) auto
  have l: "trim_left [CHR ''/''] (CHR ''/'' # q) = q" using q by (simp add: trim_left_def)
  have "trim_right [CHR ''/''] (butlast q @ [last q]) = butlast q @ [last q]"
    by (rule trim_right_snoc) (use assms(3) in simp)
  then show ?thesis using assms(1) by (simp add: trim_def l)
qed

lemma subPathFor_inj:
  assumes "plain_path p" and "plain_path q" and "subPathFor p = subPathFor q"
  shows "p = q"
proof -
  let ?f = "\<lambda>c. if c = CHR ''/'' then CHR ''_'' else c"
  obtain p' q' where p: "p = CHR ''/'' # p'" "trim [CHR ''/''] p = p'" "p' \<noteq> []" "CHR ''_'' \<notin> set p'"
    and q: "q = CHR ''/'' # q'" "trim [CHR ''/''] q = q'" "q' \<noteq> []" "CHR ''_'' \<notin> set q'"
    using assms(1,2) plain_path_trim unfolding plain_path_def by metis
  have "map ?f p' = map ?f q'" using assms(3) p(2,3) q(2,3) by (simp add: subPathFor_def Let_def)
  moreover have "inj_on ?f (set p' \<union> set q')" using p(4) q(4) by (auto simp: inj_on_def)
  ultimately have "p' = q'" by (rule map_inj_on)
  then show ?thesis using p(1) q(1) by simp
qed

text \<open>Paths that differ only there share a directory of the volume.\<close>

lemma subPathFor_shared: "subPathFor ''/a/b'' = subPathFor ''/a_b''"
  by (simp add: subPathFor_def trim_def trim_left_def trim_right_def)

section \<open>Properties\<close>

text \<open>
  C18: every service gets a container name and the search for it ends: a label Kubernetes accepts, whatever
  the service is called, none the same as another or as the job's container, and nothing else of the
  services changes.
\<close>

theorem service_container_names:
  assumes "length services < 10 ^ 30 - 4"
  shows "\<exists>ss. AssignServiceContainerNames ulower services = Some ss \<and>
    map (\<lambda>s. s\<lparr>ContainerName := []\<rparr>) ss = map (\<lambda>s. s\<lparr>ContainerName := []\<rparr>) services \<and>
    distinct (JobContainerName # map ContainerName ss) \<and> list_all (\<lambda>s. dns_label (ContainerName s)) ss"
proof -
  have "length [JobContainerName] + length services < 10 ^ 30 - 3" using assms by simp
  from assign_names_ok [OF this, of ulower] obtain ss where
    "assign_names ulower [JobContainerName] services = Some ss"
    "map (\<lambda>s. s\<lparr>ContainerName := []\<rparr>) ss = map (\<lambda>s. s\<lparr>ContainerName := []\<rparr>) services" "distinct (map ContainerName ss)"
    "set (map ContainerName ss) \<inter> set [JobContainerName] = {}" "list_all (\<lambda>s. dns_label (ContainerName s)) ss" by blast
  then show ?thesis unfolding AssignServiceContainerNames_def by (intro exI [of _ ss]) auto
qed

definition demo_health :: ServiceHealthCheck where
  "demo_health = \<lparr>Test = [], Interval = 0, Timeout = 0, StartPeriod = 0, Retries = 0\<rparr>"

definition demo_service :: "string \<Rightarrow> ServiceInput" where
  "demo_service n = \<lparr>SvcName = n, ContainerName = [], SvcImage = ''i'', SvcEntrypoint = [], SvcCmd = [], SvcEnv = [],
     HealthCheck = demo_health\<rparr>"

theorem service_container_names_witness:
  "\<exists>ss. AssignServiceContainerNames (\<lambda>r. r) [demo_service ''My_DB'', demo_service ''my-db''] = Some ss \<and>
     distinct (JobContainerName # map ContainerName ss)"
proof -
  have "length [demo_service ''My_DB'', demo_service ''my-db''] < 10 ^ 30 - 4" by simp
  from service_container_names [OF this, of "\<lambda>r. r"] show ?thesis by blast
qed

lemma service_names_assigned:
  assumes "length services < 10 ^ 30 - 4" and "AssignServiceContainerNames ulower services = Some ss"
  shows "distinct (JobContainerName # map ContainerName ss)" and "list_all (\<lambda>s. dns_label (ContainerName s)) ss"
proof -
  have "length [JobContainerName] + length services < 10 ^ 30 - 3" using assms by simp
  from assign_names_ok [OF this, of ulower] assms(2) show
    "distinct (JobContainerName # map ContainerName ss)" "list_all (\<lambda>s. dns_label (ContainerName s)) ss"
    by (auto simp: AssignServiceContainerNames_def)
qed

lemma job_label: "dns_label JobContainerName"
  by (simp add: dns_label_def JobContainerName_def label_char_def byte_def)

lemma BuildPod_Inr:
  assumes "BuildPod ulower parse inp capAdd capDrop = Inr pod"
  shows "\<exists>r. buildResources parse (Resources inp) = Inr r \<and>
    Containers pod = job_container inp r (buildVolumeMounts (MountPaths inp)) capAdd capDrop #
      map (service_container inp (buildVolumeMounts (MountPaths inp))) (Services inp) \<and>
    OwnerReferences pod = ownerReferences (Owner inp) (Namespace inp) \<and> PNamespace pod = Namespace inp \<and>
    RestartPolicy pod = ''Never'' \<and> Volumes pod = [workspaceVolumeName]"
  using assms by (auto simp: BuildPod_def Let_def split: sum.splits)

text \<open>
  C19: the Pod built for a job is well formed: one container for the job and one for each service under
  names Kubernetes accepts and no two share, never restarted, and owned only by a Pod of its own namespace.
\<close>

theorem pod_well_formed:
  assumes "length (Services inp) < 10 ^ 30 - 4" and "NewPodEnvironment ulower client_namespace inp = Some inp'"
    and "BuildPod ulower parse inp' capAdd capDrop = Inr pod"
  shows "map CName (Containers pod) = JobContainerName # map ContainerName (Services inp') \<and>
    distinct (map CName (Containers pod)) \<and> list_all (\<lambda>c. dns_label (CName c)) (Containers pod) \<and>
    RestartPolicy pod = ''Never'' \<and> PNamespace pod = (if Namespace inp = [] then client_namespace else Namespace inp) \<and>
    (OwnerReferences pod = [] \<or>
      (\<exists>ow. Owner inp = Some ow \<and> OwnerNamespace ow = PNamespace pod \<and> OwnerNamespace ow \<noteq> [] \<and>
         map RefUID (OwnerReferences pod) = [OwnerUID ow]))"
proof -
  from assms(2) obtain ss where ss: "AssignServiceContainerNames ulower (Services inp) = Some ss"
    and i: "inp' = inp\<lparr>Namespace := (if Namespace inp = [] then client_namespace else Namespace inp), Services := ss\<rparr>"
    by (auto simp: NewPodEnvironment_def)
  note n = service_names_assigned [OF assms(1) ss]
  from BuildPod_Inr [OF assms(3)] obtain r where
    c: "Containers pod = job_container inp' r (buildVolumeMounts (MountPaths inp')) capAdd capDrop #
      map (service_container inp' (buildVolumeMounts (MountPaths inp'))) (Services inp')"
    and o: "OwnerReferences pod = ownerReferences (Owner inp') (Namespace inp')" "PNamespace pod = Namespace inp'"
      "RestartPolicy pod = ''Never''" by blast
  have names: "map CName (Containers pod) = JobContainerName # map ContainerName (Services inp')"
    by (simp add: c job_container_def service_container_def comp_def)
  have "list_all dns_label (map CName (Containers pod))"
    unfolding names using n(2) job_label by (simp add: i list_all_iff)
  then have "list_all (\<lambda>c. dns_label (CName c)) (Containers pod)" by (simp add: list.pred_map comp_def)
  moreover have "OwnerReferences pod = [] \<or>
      (\<exists>ow. Owner inp = Some ow \<and> OwnerNamespace ow = PNamespace pod \<and> OwnerNamespace ow \<noteq> [] \<and>
         map RefUID (OwnerReferences pod) = [OwnerUID ow])"
    using o(1,2) by (auto simp: i ownerReferences_def split: option.splits if_splits)
  ultimately show ?thesis using names n(1) o(2,3) by (simp add: i)
qed

definition demo_input :: PodInput where
  "demo_input = \<lparr>PodInputName = ''Job_1'', PodImage = ''i'', Entrypoint = [], Cmd = [], WorkingDir = ''/w'', PodEnv = [''A=b''],
     AllocatePTY = False, Services = [demo_service ''My_DB'', demo_service ''my-db''], MountPaths = [''/w'', ''/var/run/act'', ''/w''],
     MaxLifetime = 0, Owner = Some \<lparr>OwnerName = ''r'', OwnerUID = ''u'', OwnerNamespace = ''ns''\<rparr>, Namespace = [],
     ServiceAccountName = [], ImagePullSecrets = [], ImagePullPolicy = [], PodLabels = [], Annotations = [], NodeSelector = [],
     Tolerations = [], Resources = \<lparr>RequestsCPU = ''1'', RequestsMemory = [], LimitsCPU = [], LimitsMemory = []\<rparr>,
     SecurityContext = \<lparr>RunAsNonRoot = None, RunAsUser = None, FSGroup = None\<rparr>, Privileged = False,
     TerminationGracePeriod = 0, SchedulingTimeout = 0, ServiceReadyTimeout = 0\<rparr>"

lemma demo_pod: "\<exists>inp' pod. NewPodEnvironment (\<lambda>r. r) ''ns'' demo_input = Some inp' \<and>
    BuildPod (\<lambda>r. r) Inr inp' [] [] = Inr pod"
proof -
  have "length [JobContainerName] + length (Services demo_input) < 10 ^ 30 - 3" by (simp add: demo_input_def)
  from assign_names_ok [OF this, of "\<lambda>r. r"] obtain ss where
    ss: "AssignServiceContainerNames (\<lambda>r. r) (Services demo_input) = Some ss" by (auto simp: AssignServiceContainerNames_def)
  then show ?thesis
    by (simp add: NewPodEnvironment_def BuildPod_def buildResources_def resource_fields_def demo_input_def Let_def)
qed

theorem pod_well_formed_witness:
  "\<exists>inp' pod. NewPodEnvironment (\<lambda>r. r) ''ns'' demo_input = Some inp' \<and> BuildPod (\<lambda>r. r) Inr inp' [] [] = Inr pod \<and>
     distinct (map CName (Containers pod))"
proof -
  obtain inp' pod where p: "NewPodEnvironment (\<lambda>r. r) ''ns'' demo_input = Some inp'" "BuildPod (\<lambda>r. r) Inr inp' [] [] = Inr pod"
    using demo_pod by blast
  have "length (Services demo_input) < 10 ^ 30 - 4" by (simp add: demo_input_def)
  from pod_well_formed [OF this p] p show ?thesis by blast
qed



end
