(* ===== verification/KubeEnv.thy ===== *)
theory KubeEnv
  imports KubePod "HOL-Library.List_Lexorder" "HOL-Library.Char_ord"
begin

text \<open>
  The execution environment of a job's Pod, \<^verbatim>\<open>act/container/kubernetes\<close> (\<^verbatim>\<open>wait.go\<close>,
  \<^verbatim>\<open>pod_environment.go\<close>, \<^verbatim>\<open>exec.go\<close>) and what \<^verbatim>\<open>act/runner/run_context_kubernetes.go\<close> makes of a job. The API
  server is an argument, a record of the calls the code makes on its state; while the code waits, the list of
  what each \<^verbatim>\<open>select\<close> answered says how long it may: a list that runs out is a wait that goes on.
\<close>

section \<open>What the API server answers\<close>

record Waiting =
  WReason :: string
  WMessage :: string

record ContainerState =
  StWaiting :: "Waiting option"
  StRunning :: bool
  StTerminated :: "int option"

record ContainerStatus =
  StName :: string
  State :: ContainerState
  Ready :: bool

record Condition =
  CondType :: string
  CondTrue :: bool
  CondReason :: string
  CondMessage :: string

record LivePod =
  UID :: string
  Phase :: string
  StMessage :: string
  StReason :: string
  ContainerStatuses :: "ContainerStatus list"
  Conditions :: "Condition list"
  SpecProbes :: "(string \<times> bool) list"

text \<open>A call fails because of the name, or otherwise with an error that may carry a status code.\<close>

datatype api_error = NotFound go_error | AlreadyExists go_error | ApiError go_error "int option"

fun api_err :: "api_error \<Rightarrow> go_error" where
  "api_err (NotFound e) = e"
| "api_err (AlreadyExists e) = e"
| "api_err (ApiError e code) = e"

definition transientGetError :: "api_error \<Rightarrow> bool" where
  "transientGetError err =
     (case err of ApiError e (Some code) \<Rightarrow> 500 \<le> code | AlreadyExists e \<Rightarrow> False | NotFound e \<Rightarrow> False | _ \<Rightarrow> True)"

section \<open>Reading the status of a Pod\<close>

definition podFailureMessage :: "LivePod \<Rightarrow> string" where
  "podFailureMessage p =
     (if StMessage p \<noteq> [] then StMessage p
      else if StReason p \<noteq> [] then StReason p else ''no reason reported'')"

definition waitingReason :: "ContainerStatus \<Rightarrow> string" where
  "waitingReason st =
     (case StWaiting (State st) of
        None \<Rightarrow> []
      | Some w \<Rightarrow> if WMessage w \<noteq> [] then WReason w @ '' ('' @ WMessage w @ '')'' else WReason w)"

definition isTerminalWaitingReason :: "string \<Rightarrow> bool" where
  "isTerminalWaitingReason reason =
     (has_prefix ''ImagePullBackOff'' reason \<or> has_prefix ''InvalidImageName'' reason \<or>
      has_prefix ''CreateContainerConfigError'' reason \<or> has_prefix ''CreateContainerError'' reason)"

fun terminal_waiting :: "ContainerStatus list \<Rightarrow> string" where
  "terminal_waiting [] = []"
| "terminal_waiting (st # sts) =
     (if isTerminalWaitingReason (waitingReason st) then StName st @ '': '' @ waitingReason st else terminal_waiting sts)"

definition terminalWaitingReason :: "LivePod \<Rightarrow> string" where
  "terminalWaitingReason p = terminal_waiting (ContainerStatuses p)"

fun scheduling_reason :: "Condition list \<Rightarrow> string" where
  "scheduling_reason [] = []"
| "scheduling_reason (c # cs) =
     (if CondType c = ''PodScheduled'' \<and> \<not> CondTrue c
      then (if CondMessage c \<noteq> [] then CondReason c @ '': '' @ CondMessage c else CondReason c)
      else scheduling_reason cs)"

definition schedulingReason :: "LivePod \<Rightarrow> string" where
  "schedulingReason p = scheduling_reason (Conditions p)"

definition jobContainerState :: "LivePod \<Rightarrow> ContainerState option" where
  "jobContainerState p = map_option State (find (\<lambda>st. StName st = JobContainerName) (ContainerStatuses p))"

section \<open>Waiting for the job container\<close>

text \<open>What a \<^verbatim>\<open>select\<close> on the clock and the context answers: another poll, or that the context is done.\<close>

datatype tick = Tick | Done go_error

definition disappeared :: "string \<Rightarrow> go_error" where
  "disappeared name = Errorf (''kubernetes: pod '' @ name @ '' disappeared before it started'')"

definition exited_early :: "string \<Rightarrow> LivePod \<Rightarrow> go_error" where
  "exited_early name p = Errorf (''kubernetes: pod '' @ name @
     '': the job container exited before any step ran: '' @ podFailureMessage p)"

definition failed_to_start :: "string \<Rightarrow> LivePod \<Rightarrow> go_error" where
  "failed_to_start name p = Errorf (''kubernetes: pod '' @ name @ '' failed to start: '' @ podFailureMessage p)"

text \<open>What the phase decides: \<^term>\<open>Some None\<close> that the job container runs, \<^term>\<open>Some (Some e)\<close> that it never will.\<close>

definition phase_verdict :: "string \<Rightarrow> LivePod \<Rightarrow> go_error option option" where
  "phase_verdict name p =
     (if Phase p = ''Running'' \<or> Phase p = ''Succeeded''
      then (case jobContainerState p of
              None \<Rightarrow> None
            | Some st \<Rightarrow>
                if StTerminated st \<noteq> None then Some (Some (exited_early name p))
                else if StRunning st then Some None else None)
      else if Phase p = ''Failed'' then Some (Some (failed_to_start name p)) else None)"

text \<open>One poll: a verdict, or the reason and the phase it leaves behind.\<close>

definition poll_once :: "string \<Rightarrow> api_error + LivePod \<Rightarrow> string \<times> string \<Rightarrow> go_error option + string \<times> string" where
  "poll_once name got seen =
     (case got of
        Inl err \<Rightarrow>
          (case err of
             NotFound e \<Rightarrow> Inl (Some (disappeared name))
           | _ \<Rightarrow> if \<not> transientGetError err then Inl (Some (Wrap (''kubernetes: get pod '' @ name) (api_err err)))
                 else Inr (error_string (api_err err), snd seen))
      | Inr p \<Rightarrow>
          (case phase_verdict name p of
             Some v \<Rightarrow> Inl v
           | None \<Rightarrow>
               if terminalWaitingReason p \<noteq> []
               then Inl (Some (Errorf (''kubernetes: pod '' @ name @ '' cannot start: '' @ terminalWaitingReason p)))
               else Inr (if schedulingReason p \<noteq> [] then schedulingReason p else fst seen, Phase p)))"

definition wait_done :: "string \<Rightarrow> go_error \<Rightarrow> string \<times> string \<Rightarrow> go_error" where
  "wait_done name e seen =
     (if errors_is e Canceled then Wrap (''kubernetes: waiting for pod '' @ name @ '' to start'') e
      else Errorf (''kubernetes: timed out waiting for pod '' @ name @ '' to start: '' @
        (if fst seen = [] then snd seen else fst seen)))"

fun wait_loop ::
  "string \<Rightarrow> string \<times> string \<Rightarrow> ((api_error + LivePod) \<times> tick) list \<Rightarrow> go_error option option" where
  "wait_loop name seen [] = None"
| "wait_loop name seen ((got, t) # polls) =
     (case poll_once name got seen of
        Inl v \<Rightarrow> Some v
      | Inr seen' \<Rightarrow> (case t of Tick \<Rightarrow> wait_loop name seen' polls | Done e \<Rightarrow> Some (Some (wait_done name e seen'))))"

definition waitForRunning :: "string \<Rightarrow> ((api_error + LivePod) \<times> tick) list \<Rightarrow> go_error option option" where
  "waitForRunning name polls = wait_loop name ([], []) polls"

section \<open>The status of one container\<close>

record Info =
  InfoID :: string
  InfoState :: string
  ExitCode :: int
  Health :: string
  HealthOutput :: string

definition hasReadinessProbe :: "LivePod \<Rightarrow> string \<Rightarrow> bool" where
  "hasReadinessProbe p name =
     (case find (\<lambda>c. fst c = name) (SpecProbes p) of None \<Rightarrow> False | Some c \<Rightarrow> snd c)"

definition status_info :: "bool \<Rightarrow> ContainerStatus \<Rightarrow> Info \<Rightarrow> Info" where
  "status_info probe st info =
     (let info =
            (case StTerminated (State st) of
               Some code \<Rightarrow> info\<lparr>InfoState := ''exited'', ExitCode := code\<rparr>
             | None \<Rightarrow> if StRunning (State st) then info\<lparr>InfoState := ''running''\<rparr> else info)
      in if \<not> probe then info
         else (let info = info\<lparr>Health := (if Ready st then ''healthy'' else ''starting'')\<rparr>
               in if waitingReason st \<noteq> [] then info\<lparr>HealthOutput := waitingReason st\<rparr> else info))"

definition podInfo :: "LivePod \<Rightarrow> string \<Rightarrow> Info" where
  "podInfo p name =
     (let info = \<lparr>InfoID = UID p, InfoState = ''created'', ExitCode = 0, Health = ''none'', HealthOutput = []\<rparr>
      in case find (\<lambda>st. StName st = name) (ContainerStatuses p) of
           None \<Rightarrow> info
         | Some st \<Rightarrow> status_info (hasReadinessProbe p name) st info)"

section \<open>Creating and removing the Pod\<close>

text \<open>The calls on the Pods of a namespace; a delete carries its grace period, a wait lets time pass.\<close>

record ('s, 'q) pods_api =
  api_create :: "'q Pod \<Rightarrow> 's \<Rightarrow> (api_error + string) \<times> 's"
  api_delete :: "string \<Rightarrow> int \<Rightarrow> 's \<Rightarrow> api_error option \<times> 's"
  api_get :: "string \<Rightarrow> 's \<Rightarrow> (api_error + LivePod) \<times> 's"

fun is_NotFound :: "api_error \<Rightarrow> bool" where
  "is_NotFound (NotFound e) = True"
| "is_NotFound _ = False"

fun await_gone ::
  "('s, 'q) pods_api \<Rightarrow> string \<Rightarrow> tick list \<Rightarrow> 's \<Rightarrow> (go_error option \<times> 's) option" where
  "await_gone api name [] s = None"
| "await_gone api name (t # ts) s =
     (case api_get api name s of
        (Inl err, s) \<Rightarrow>
          if is_NotFound err then Some (None, s)
          else Some (Some (Wrap (''kubernetes: replace pod '' @ name) (api_err err)), s)
      | (Inr p, s) \<Rightarrow>
          (case t of
             Tick \<Rightarrow> await_gone api name ts s
           | Done e \<Rightarrow> Some (Some (Wrap (''kubernetes: pod '' @ name @ '' was still terminating'') e), s)))"

definition removeNow ::
  "('s, 'q) pods_api \<Rightarrow> string \<Rightarrow> tick list \<Rightarrow> 's \<Rightarrow> (go_error option \<times> 's) option" where
  "removeNow api name ts s =
     (case api_delete api name 0 s of
        (Some err, s) \<Rightarrow>
          if is_NotFound err then await_gone api name ts s
          else Some (Some (Wrap (''kubernetes: replace pod '' @ name) (api_err err)), s)
      | (None, s) \<Rightarrow> await_gone api name ts s)"

text \<open>The name the Pod was created under, or the error.\<close>

definition created_name :: "string \<Rightarrow> (api_error + string) \<times> 's \<Rightarrow> (go_error + string) \<times> 's" where
  "created_name name r =
     ((case fst r of Inl err \<Rightarrow> Inl (Wrap (''kubernetes: create pod '' @ name) (api_err err)) | Inr n \<Rightarrow> Inr n), snd r)"

definition Create ::
  "(string \<Rightarrow> string) \<Rightarrow> (string \<Rightarrow> go_error + 'q) \<Rightarrow> ('s, 'q) pods_api \<Rightarrow> PodInput \<Rightarrow> string list \<Rightarrow> string list \<Rightarrow>
   tick list \<Rightarrow> 's \<Rightarrow> ((go_error + string) \<times> 's) option" where
  "Create ulower parse api inp capAdd capDrop ts s =
     (case BuildPod ulower parse inp capAdd capDrop of
        Inl e \<Rightarrow> Some (Inl e, s)
      | Inr pod \<Rightarrow>
          (let name = PodName ulower (PodInputName inp)
           in case api_create api pod s of
                (Inl (AlreadyExists e), s) \<Rightarrow>
                  (case removeNow api name ts s of
                     None \<Rightarrow> None
                   | Some (Some err, s) \<Rightarrow> Some (Inl err, s)
                   | Some (None, s) \<Rightarrow> Some (created_name name (api_create api pod s)))
              | r \<Rightarrow> Some (created_name name r)))"

definition Remove ::
  "('s, 'q) pods_api \<Rightarrow> string \<Rightarrow> int \<Rightarrow> 's \<Rightarrow> go_error option \<times> 's" where
  "Remove api podName grace s =
     (if podName = [] then (None, s)
      else (case api_delete api podName (if 0 < grace then grace div second else 0) s of
              (Some err, s) \<Rightarrow>
                if is_NotFound err then (None, s)
                else (Some (Wrap (''kubernetes: delete pod '' @ podName) (api_err err)), s)
            | (None, s) \<Rightarrow> (None, s)))"

section \<open>Running commands\<close>

definition wrapCommand :: "string list \<Rightarrow> env \<Rightarrow> string \<Rightarrow> string list" where
  "wrapCommand command ev workdir =
     (let cmd = command;
          cmd = (if 0 < length ev
                 then [''env''] @ map (\<lambda>name. name @ ''='' @ dict_get ev name) (sort (map fst ev)) @ cmd else cmd)
      in if workdir \<noteq> []
         then [''sh'', ''-c'', ''cd '' @ gq ''$0'' @ '' && exec '' @ gq ''$@'', workdir] @ cmd else cmd)"

text \<open>What a line of \<^verbatim>\<open>env\<close> adds to the variables of the job.\<close>

definition image_env_line :: "string \<Rightarrow> env \<Rightarrow> env" where
  "image_env_line line localEnv =
     (case str_cut (trim_right [CHR 0x0D] line) ''='' of (name, v, found) \<Rightarrow>
        if found \<and> name \<noteq> [] \<and> map_of localEnv name = None then dict_put name v localEnv else localEnv)"

text \<open>\<^verbatim>\<open>exec\<close> runs \<^verbatim>\<open>env\<close> in the container: its output, or nothing when it failed.\<close>

definition UpdateFromImageEnv :: "string option \<Rightarrow> env \<Rightarrow> env" where
  "UpdateFromImageEnv out localEnv =
     (case out of None \<Rightarrow> localEnv | Some o' \<Rightarrow> fold image_env_line (split_at CHR 0x0A o') localEnv)"

section \<open>The runner's own context\<close>

definition runnerArch :: "string \<Rightarrow> env \<Rightarrow> string" where
  "runnerArch goarch nodeSelector =
     (let pinned = dict_get nodeSelector ''kubernetes.io/arch'';
          arch = (if pinned \<noteq> [] then pinned else goarch)
      in if arch = ''amd64'' \<or> arch = ''x86_64'' then ''X64''
         else if arch = ''386'' then ''X86''
         else if arch = ''arm64'' \<or> arch = ''aarch64'' then ''ARM64''
         else arch)"

definition imagePullPolicy :: "string \<Rightarrow> bool \<Rightarrow> string" where
  "imagePullPolicy configured forcePull =
     (if configured \<noteq> [] then configured else if forcePull then ''Always'' else [])"

definition serviceReadyTimeout :: "int \<Rightarrow> int \<Rightarrow> int \<Rightarrow> int" where
  "serviceReadyTimeout defaultServiceReadyTimeout configured fallback =
     (if configured \<noteq> 0 then configured else if fallback \<noteq> 0 then fallback else defaultServiceReadyTimeout)"

section \<open>Waiting, read off the polls\<close>

text \<open>A poll that leaves the wait where it is.\<close>

fun undecided :: "string \<Rightarrow> api_error + LivePod \<Rightarrow> bool" where
  "undecided name (Inl err) = (\<not> is_NotFound err \<and> transientGetError err)"
| "undecided name (Inr p) = (phase_verdict name p = None \<and> terminalWaitingReason p = [])"

definition job_runs :: "LivePod \<Rightarrow> bool" where
  "job_runs p = (Phase p \<in> {''Running'', ''Succeeded''} \<and>
     (\<exists>st. jobContainerState p = Some st \<and> StRunning st \<and> StTerminated st = None))"

lemma poll_once_undecided: "undecided name got \<longleftrightarrow> (\<exists>seen'. poll_once name got seen = Inr seen')"
  by (cases got; cases "projl got") (auto simp: poll_once_def transientGetError_def split: option.splits)

lemma poll_once_runs: "poll_once name got seen = Inl None \<longleftrightarrow> (\<exists>p. got = Inr p \<and> job_runs p)"
proof (cases got)
  case (Inl err)
  then show ?thesis by (cases err) (auto simp: poll_once_def)
next
  case (Inr p)
  show ?thesis
    by (auto simp: Inr poll_once_def phase_verdict_def job_runs_def split: option.splits if_splits)
qed

lemma first_poll:
  "(\<exists>pre p t' post. x # polls = pre @ (Inr p, t') # post \<and> J p \<and> list_all Q pre) \<longleftrightarrow>
     (\<exists>p. fst x = Inr p \<and> J p) \<or> (Q x \<and> (\<exists>pre p t' post. polls = pre @ (Inr p, t') # post \<and> J p \<and> list_all Q pre))"
  (is "?L \<longleftrightarrow> ?R")
proof
  assume ?L
  then obtain pre p t' post where l: "x # polls = pre @ (Inr p, t') # post" "J p" "list_all Q pre" by blast
  show ?R
  proof (cases pre)
    case Nil
    with l show ?thesis by auto
  next
    case (Cons y pre')
    with l have "Q x" "polls = pre' @ (Inr p, t') # post" "list_all Q pre'" by simp_all
    with l(2) show ?thesis by blast
  qed
next
  assume ?R
  then show ?L
  proof
    assume "\<exists>p. fst x = Inr p \<and> J p"
    then obtain p where "x = (Inr p, snd x)" "J p" by (metis prod.collapse)
    then have "x # polls = [] @ (Inr p, snd x) # polls \<and> J p \<and> list_all Q []" by simp
    then show ?L by blast
  next
    assume "Q x \<and> (\<exists>pre p t' post. polls = pre @ (Inr p, t') # post \<and> J p \<and> list_all Q pre)"
    then obtain pre p t' post where "x # polls = (x # pre) @ (Inr p, t') # post \<and> J p \<and> list_all Q (x # pre)" by auto
    then show ?L by blast
  qed
qed

lemma wait_loop_runs:
  "wait_loop name seen polls = Some None \<longleftrightarrow>
     (\<exists>pre p t post. polls = pre @ (Inr p, t) # post \<and> job_runs p \<and>
        list_all (\<lambda>(g, t). undecided name g \<and> t = Tick) pre)"
proof (induction polls arbitrary: seen)
  case (Cons x polls)
  obtain g t where x: "x = (g, t)" by (cases x)
  show ?case
  proof (cases "poll_once name g seen")
    case (Inl v)
    then have "\<not> undecided name g" using poll_once_undecided [of name g seen] by simp
    then show ?thesis using Inl poll_once_runs [of name g seen] unfolding first_poll by (simp add: x)
  next
    case (Inr seen')
    then have u: "undecided name g" "(\<exists>p. g = Inr p \<and> job_runs p) = False"
      using poll_once_undecided [of name g seen] poll_once_runs [of name g seen] by simp_all
    show ?thesis using Inr Cons.IH [of seen'] unfolding first_poll x fst_conv u(2) by (cases t) (simp_all add: u(1))
  qed
qed simp

lemma wait_loop_done:
  "list_all (\<lambda>(g, t). undecided name g \<and> t = Tick) pre \<Longrightarrow> undecided name g \<Longrightarrow>
     \<exists>seen0 seen'. poll_once name g seen0 = Inr seen' \<and>
       wait_loop name seen (pre @ [(g, Done e)]) = Some (Some (wait_done name e seen'))"
proof (induction pre arbitrary: seen)
  case Nil
  then obtain seen' where "poll_once name g seen = Inr seen'" using poll_once_undecided [of name g seen] by blast
  then show ?case by (intro exI [of _ seen] exI [of _ seen']) simp
next
  case (Cons x pre)
  obtain g' t where x: "x = (g', t)" by (cases x)
  obtain seen' where p: "poll_once name g' seen = Inr seen'" using Cons.prems(1) poll_once_undecided x by fastforce
  from Cons.IH [OF _ Cons.prems(2), of seen'] Cons.prems(1) p x show ?case by simp
qed

section \<open>Creating over a leftover\<close>

text \<open>
  The documented behaviour of the calls, over the Pods there are and, for a Pod being terminated, how many
  more reads still find it.
\<close>

definition api_laws ::
  "('s, 'q) pods_api \<Rightarrow> ('s \<Rightarrow> string \<Rightarrow> 'q Pod option) \<Rightarrow> ('s \<Rightarrow> string \<Rightarrow> nat option) \<Rightarrow> bool" where
  "api_laws api pods left =
     ((\<forall>pod s. case pods s (PName pod) of
         Some old \<Rightarrow> \<exists>e. api_create api pod s = (Inl (AlreadyExists e), s)
       | None \<Rightarrow> \<exists>s'. api_create api pod s = (Inr (PName pod), s') \<and> pods s' = (pods s)(PName pod := Some pod)) \<and>
      (\<forall>n g s. pods s n \<noteq> None \<longrightarrow>
         (\<exists>s'. api_delete api n g s = (None, s') \<and> pods s' = pods s \<and> left s' n \<noteq> None)) \<and>
      (\<forall>n s. case pods s n of
         None \<Rightarrow> \<exists>e s'. api_get api n s = (Inl (NotFound e), s') \<and> pods s' = pods s
       | Some p \<Rightarrow> (\<exists>lp s'. api_get api n s = (Inr lp, s') \<and>
           (case left s n of
              None \<Rightarrow> pods s' = pods s
            | Some 0 \<Rightarrow> pods s' = (pods s)(n := None)
            | Some (Suc k) \<Rightarrow> pods s' = pods s \<and> left s' n = Some k))))"

lemma law_pod_create:
  assumes "api_laws api pods left"
  shows "pods s (PName pod) \<noteq> None \<Longrightarrow> \<exists>e. api_create api pod s = (Inl (AlreadyExists e), s)"
    and "pods s (PName pod) = None \<Longrightarrow>
      \<exists>s'. api_create api pod s = (Inr (PName pod), s') \<and> pods s' = (pods s)(PName pod := Some pod)"
  using assms [unfolded api_laws_def, THEN conjunct1, THEN spec, THEN spec, of pod s] by (auto split: option.splits)

lemma law_pod_delete:
  assumes "api_laws api pods left" and "pods s n \<noteq> None"
  shows "\<exists>s'. api_delete api n g s = (None, s') \<and> pods s' = pods s \<and> left s' n \<noteq> None"
  using assms(1) [unfolded api_laws_def, THEN conjunct2, THEN conjunct1, THEN spec, THEN spec, THEN spec, THEN mp, OF assms(2)] .

lemma law_gone:
  assumes "api_laws api pods left" and "pods s n = None"
  shows "\<exists>e s'. api_get api n s = (Inl (NotFound e), s') \<and> pods s' = pods s"
  using assms(1) [unfolded api_laws_def, THEN conjunct2, THEN conjunct2, THEN spec, THEN spec, of n s] assms(2) by simp

lemma law_terminating:
  assumes "api_laws api pods left" and "pods s n \<noteq> None" and "left s n = Some k"
  shows "\<exists>lp s'. api_get api n s = (Inr lp, s') \<and>
    (case k of 0 \<Rightarrow> pods s' = (pods s)(n := None) | Suc k' \<Rightarrow> pods s' = pods s \<and> left s' n = Some k')"
  using assms(1) [unfolded api_laws_def, THEN conjunct2, THEN conjunct2, THEN spec, THEN spec, of n s] assms(2,3) by auto

lemma await_gone_ok:
  assumes "api_laws api pods left"
  shows "pods s n \<noteq> None \<Longrightarrow> left s n = Some k \<Longrightarrow>
    \<exists>s'. await_gone api n (replicate (k + 2) Tick) s = Some (None, s') \<and> pods s' = (pods s)(n := None)"
proof (induction k arbitrary: s)
  case 0
  from law_terminating [OF assms 0] obtain lp s1 where 1: "api_get api n s = (Inr lp, s1)" "pods s1 = (pods s)(n := None)" by auto
  from law_gone [OF assms, of s1 n] 1(2) obtain e s2 where 2: "api_get api n s1 = (Inl (NotFound e), s2)" "pods s2 = pods s1" by auto
  show ?case using 1 2 by (simp add: numeral_2_eq_2 fun_upd_def)
next
  case (Suc k)
  from law_terminating [OF assms Suc.prems] obtain lp s1 where
    1: "api_get api n s = (Inr lp, s1)" "pods s1 = pods s" "left s1 n = Some k" by auto
  from Suc.IH [of s1] 1 Suc.prems(1) show ?case by simp
qed

lemma create_over_leftover:
  assumes "api_laws api pods left" and "BuildPod ulower parse inp capAdd capDrop = Inr pod"
  shows "\<exists>n s'. Create ulower parse api inp capAdd capDrop (replicate n Tick) s = Some (Inr (PName pod), s') \<and>
    pods s' = (pods s)(PName pod := Some pod)"
proof -
  have n: "PodName ulower (PodInputName inp) = PName pod"
    using assms(2) by (auto simp: BuildPod_def Let_def split: sum.splits)
  show ?thesis
  proof (cases "pods s (PName pod)")
    case None
    from law_pod_create(2) [OF assms(1) None] show ?thesis
      by (auto simp: Create_def assms(2) Let_def created_name_def)
  next
    case (Some old)
    then have ex: "pods s (PName pod) \<noteq> None" by simp
    obtain e where c: "api_create api pod s = (Inl (AlreadyExists e), s)" using law_pod_create(1) [OF assms(1) ex] by blast
    obtain s1 k where d: "api_delete api (PName pod) 0 s = (None, s1)" "pods s1 = pods s" "left s1 (PName pod) = Some k"
      using law_pod_delete [OF assms(1) ex, of 0] by auto
    obtain s2 where g: "await_gone api (PName pod) (replicate (k + 2) Tick) s1 = Some (None, s2)"
        "pods s2 = (pods s1)(PName pod := None)"
      using await_gone_ok [OF assms(1), of s1 "PName pod" k] d ex by auto
    obtain s3 where "api_create api pod s2 = (Inr (PName pod), s3)" "pods s3 = (pods s2)(PName pod := Some pod)"
      using law_pod_create(2) [OF assms(1), of s2 pod] g(2) by auto
    with c d g n show ?thesis
      by (intro exI [of _ "k + 2"] exI [of _ s3]) (simp add: Create_def assms(2) removeNow_def created_name_def Let_def)
  qed
qed

section \<open>Properties\<close>

text \<open>
  C20: the wait for a Pod succeeds exactly at the first poll that finds the job container itself running in a
  started Pod, if every poll before it decided nothing: a sidecar that keeps the Pod running never counts, a
  container that exited or cannot start is never reported as running, and a passing failure to read is waited out.
\<close>

theorem wait_for_job_container:
  "waitForRunning name polls = Some None \<longleftrightarrow>
     (\<exists>pre p t post. polls = pre @ (Inr p, t) # post \<and> job_runs p \<and>
        list_all (\<lambda>(g, t). undecided name g \<and> t = Tick) pre)"
  unfolding waitForRunning_def by (rule wait_loop_runs)


definition demo_pending :: LivePod where
  "demo_pending = \<lparr>UID = ''u'', Phase = ''Pending'', StMessage = [], StReason = [], ContainerStatuses = [],
     Conditions = [\<lparr>CondType = ''PodScheduled'', CondTrue = False, CondReason = ''Unschedulable'', CondMessage = ''no cpu''\<rparr>],
     SpecProbes = [(''job'', False)]\<rparr>"


definition demo_running :: LivePod where
  "demo_running = demo_pending\<lparr>Phase := ''Running'', Conditions := [],
     ContainerStatuses := [\<lparr>StName = ''job'', State = \<lparr>StWaiting = None, StRunning = True, StTerminated = None\<rparr>, Ready = True\<rparr>]\<rparr>"

theorem wait_for_job_container_witness:
  "waitForRunning ''p'' [(Inr demo_pending, Tick), (Inr demo_running, Tick)] = Some None"
proof -
  have u: "undecided ''p'' (Inr demo_pending)"
    by (simp add: demo_pending_def phase_verdict_def terminalWaitingReason_def)
  have r: "job_runs demo_running"
    by (simp add: demo_running_def demo_pending_def job_runs_def jobContainerState_def JobContainerName_def)
  have "\<exists>pre p t post. [(Inr demo_pending :: api_error + LivePod, Tick), (Inr demo_running, Tick)] = pre @ (Inr p, t) # post \<and>
      job_runs p \<and> list_all (\<lambda>(g, t). undecided ''p'' g \<and> t = Tick) pre"
    by (rule exI [of _ "[(Inr demo_pending, Tick)]"], rule exI [of _ demo_running]) (simp add: u r del: undecided.simps)
  with wait_for_job_container [of "''p''" "[(Inr demo_pending, Tick), (Inr demo_running, Tick)]"] show ?thesis by blast
qed

text \<open>
  C22: a runner that finds a Pod of its own name in the way replaces it: with the API server behaving as
  documented the wait for the old one ends, the new one takes its name, and no other Pod is touched.
\<close>

theorem create_replaces_leftover:
  assumes "api_laws api pods left" and "BuildPod ulower parse inp capAdd capDrop = Inr pod"
  shows "\<exists>n s'. Create ulower parse api inp capAdd capDrop (replicate n Tick) s = Some (Inr (PName pod), s') \<and>
    pods s' = (pods s)(PName pod := Some pod)"
  by (rule create_over_leftover [OF assms])

type_synonym demo_cluster = "string \<Rightarrow> (string Pod \<times> nat option) option"

definition demo_api :: "(demo_cluster, string) pods_api" where
  "demo_api = \<lparr>
     api_create = (\<lambda>pod s. case s (PName pod) of
        Some x \<Rightarrow> (Inl (AlreadyExists (Errorf ''exists'')), s) | None \<Rightarrow> (Inr (PName pod), s(PName pod := Some (pod, None)))),
     api_delete = (\<lambda>n g s. case s n of
        None \<Rightarrow> (Some (NotFound (Errorf ''not found'')), s) | Some (p, l) \<Rightarrow> (None, s(n := Some (p, Some 1)))),
     api_get = (\<lambda>n s. case s n of
        None \<Rightarrow> (Inl (NotFound (Errorf ''not found'')), s)
      | Some (p, l) \<Rightarrow> (Inr demo_running,
          case l of None \<Rightarrow> s | Some 0 \<Rightarrow> s(n := None) | Some (Suc k) \<Rightarrow> s(n := Some (p, Some k))))\<rparr>"

lemma demo_api_laws: "api_laws demo_api (\<lambda>s n. map_option fst (s n)) (\<lambda>s n. case s n of None \<Rightarrow> None | Some x \<Rightarrow> snd x)"
  unfolding api_laws_def
proof (intro conjI allI impI)
  fix s :: demo_cluster and n g and pod :: "string Pod"
  show "case map_option fst (s (PName pod)) of
      Some old \<Rightarrow> \<exists>e. api_create demo_api pod s = (Inl (AlreadyExists e), s)
    | None \<Rightarrow> \<exists>s'. api_create demo_api pod s = (Inr (PName pod), s') \<and>
        (\<lambda>n. map_option fst (s' n)) = (\<lambda>n. map_option fst (s n))(PName pod := Some pod)"
    by (cases "s (PName pod)") (auto simp: demo_api_def intro!: ext)
  assume "map_option fst (s n) \<noteq> None"
  then show "\<exists>s'. api_delete demo_api n g s = (None, s') \<and> (\<lambda>n. map_option fst (s' n)) = (\<lambda>n. map_option fst (s n)) \<and>
      (case s' n of None \<Rightarrow> None | Some x \<Rightarrow> snd x) \<noteq> None"
    by (cases "s n") (auto simp: demo_api_def fun_eq_iff)
next
  fix s :: demo_cluster and n
  show "case map_option fst (s n) of
      None \<Rightarrow> \<exists>e s'. api_get demo_api n s = (Inl (NotFound e), s') \<and> (\<lambda>n. map_option fst (s' n)) = (\<lambda>n. map_option fst (s n))
    | Some p \<Rightarrow> (\<exists>lp s'. api_get demo_api n s = (Inr lp, s') \<and>
        (case case s n of None \<Rightarrow> None | Some x \<Rightarrow> snd x of
           None \<Rightarrow> (\<lambda>n. map_option fst (s' n)) = (\<lambda>n. map_option fst (s n))
         | Some 0 \<Rightarrow> (\<lambda>n. map_option fst (s' n)) = (\<lambda>n. map_option fst (s n))(n := None)
         | Some (Suc k) \<Rightarrow> (\<lambda>n. map_option fst (s' n)) = (\<lambda>n. map_option fst (s n)) \<and>
             (case s' n of None \<Rightarrow> None | Some x \<Rightarrow> snd x) = Some k))"
    by (cases "s n"; cases "snd (the (s n))"; cases "the (snd (the (s n)))")
      (auto simp: demo_api_def intro!: ext)
qed

theorem create_replaces_leftover_witness:
  "\<exists>inp' pod n s'. Create (\<lambda>r. r) Inr demo_api inp' [] [] (replicate n Tick) (\<lambda>x. Some (pod, None)) = Some (Inr (PName pod), s')"
proof -
  obtain inp' and pod :: "string Pod" where p: "BuildPod (\<lambda>r. r) Inr inp' [] [] = Inr pod" using demo_pod by blast
  from create_replaces_leftover [OF demo_api_laws p, of "\<lambda>x. Some (pod, None)"] show ?thesis by blast
qed

text \<open>
  What is reported of one container of the Pod depends on that container's own status and probe alone, so a
  sidecar still being created does not read as running because the Pod is, and a name that matches none is not running.
\<close>

theorem pod_info_own_container:
  assumes "UID p = UID q" and "filter (\<lambda>st. StName st = name) (ContainerStatuses p) = filter (\<lambda>st. StName st = name) (ContainerStatuses q)"
    and "filter (\<lambda>c. fst c = name) (SpecProbes p) = filter (\<lambda>c. fst c = name) (SpecProbes q)"
  shows "podInfo p name = podInfo q name \<and>
    (InfoState (podInfo p name) = ''running'') =
      (\<exists>st sts. filter (\<lambda>st. StName st = name) (ContainerStatuses p) = st # sts \<and>
         StRunning (State st) \<and> StTerminated (State st) = None)"
proof -
  have f: "find P xs = (case filter P xs of [] \<Rightarrow> None | x # _ \<Rightarrow> Some x)" for P :: "'b \<Rightarrow> bool" and xs
    by (induction xs) auto
  have i: "podInfo r name = podInfo p name" if "UID r = UID p"
      "filter (\<lambda>st. StName st = name) (ContainerStatuses r) = filter (\<lambda>st. StName st = name) (ContainerStatuses p)"
      "filter (\<lambda>c. fst c = name) (SpecProbes r) = filter (\<lambda>c. fst c = name) (SpecProbes p)" for r :: LivePod
    unfolding podInfo_def hasReadinessProbe_def f that ..
  have "podInfo p name = podInfo q name" using i [of q] assms by simp
  moreover have "(InfoState (podInfo p name) = ''running'') =
      (\<exists>st sts. filter (\<lambda>st. StName st = name) (ContainerStatuses p) = st # sts \<and>
         StRunning (State st) \<and> StTerminated (State st) = None)"
    by (cases "filter (\<lambda>st. StName st = name) (ContainerStatuses p)")
      (simp_all add: podInfo_def f Let_def status_info_def split: option.splits)
  ultimately show ?thesis by blast
qed

theorem pod_info_own_container_witness:
  "podInfo demo_running ''svc-db'' = podInfo (demo_running\<lparr>Phase := ''Pending''\<rparr>) ''svc-db''"
  using pod_info_own_container [of demo_running "demo_running\<lparr>Phase := ''Pending''\<rparr>" "''svc-db''"] by simp

lemma image_env_line_keeps:
  "map_of (image_env_line l ev) k = Some v \<longleftrightarrow> map_of ev k = Some v \<or>
     (map_of ev k = None \<and> k \<noteq> [] \<and> (\<exists>b. str_cut (trim_right [CHR 0x0D] l) ''='' = (k, v, b) \<and> b))"
proof -
  obtain n x b where c: "str_cut (trim_right [CHR 0x0D] l) ''='' = (n, x, b)" by (metis prod_cases3)
  show ?thesis by (auto simp: image_env_line_def c update_conv')
qed

lemma image_env_keeps: "map_of ev k = Some v \<Longrightarrow> map_of (fold image_env_line ls ev) k = Some v"
  by (induction ls arbitrary: ev) (auto simp: image_env_line_keeps)

text \<open>
  The image's environment only fills gaps: a variable of the job keeps its value, and one the job has not
  set takes the first value printed for it.
\<close>

lemma image_env_fills_gaps:
  assumes "map_of (UpdateFromImageEnv (Some out) ev) k = Some v"
  shows "map_of ev k = Some v \<or>
    (map_of ev k = None \<and> (\<exists>pre l post. split_at CHR 0x0A out = pre @ l # post \<and>
       str_cut (trim_right [CHR 0x0D] l) ''='' = (k, v, True) \<and>
       list_all (\<lambda>l. \<forall>v'. str_cut (trim_right [CHR 0x0D] l) ''='' \<noteq> (k, v', True)) pre))"
proof -
  have "map_of (fold image_env_line ls ev) k = Some v \<Longrightarrow> map_of ev k = Some v \<or>
      (map_of ev k = None \<and> (\<exists>pre l post. ls = pre @ l # post \<and> str_cut (trim_right [CHR 0x0D] l) ''='' = (k, v, True) \<and>
         list_all (\<lambda>l. \<forall>v'. str_cut (trim_right [CHR 0x0D] l) ''='' \<noteq> (k, v', True)) pre))" for ls ev
  proof (induction ls arbitrary: ev)
    case (Cons l ls)
    let ?ev = "image_env_line l ev"
    show ?case
    proof (cases "map_of ev k")
      case (Some u)
      then show ?thesis using image_env_keeps [of ev k u "l # ls"] Cons.prems by simp
    next
      case None
      show ?thesis
      proof (cases "\<exists>u. str_cut (trim_right [CHR 0x0D] l) ''='' = (k, u, True) \<and> k \<noteq> []")
        case True
        then obtain u where u: "str_cut (trim_right [CHR 0x0D] l) ''='' = (k, u, True)" "k \<noteq> []" by blast
        then have "map_of ?ev k = Some u" using None by (simp add: image_env_line_def update_conv')
        then have "u = v" using image_env_keeps [of ?ev k u ls] Cons.prems by simp
        with u None show ?thesis by (intro disjI2 conjI exI [of _ "[]"] exI [of _ l] exI [of _ ls]) auto
      next
        case False
        have n: "map_of ?ev k = None"
          using False None image_env_line_keeps [of l ev k] by (metis (mono_tags, lifting) option.exhaust)
        have kn: "k \<noteq> []"
        proof
          assume "k = []"
          moreover have "map_of (fold image_env_line xs e) [] = map_of e []" for xs e
            by (induction xs arbitrary: e) (auto simp: image_env_line_def update_conv' split: prod.splits)
          ultimately show False using Cons.prems None by (metis option.distinct(1))
        qed
        from Cons.IH [of ?ev] Cons.prems n obtain pre l' post where
          r: "ls = pre @ l' # post" "str_cut (trim_right [CHR 0x0D] l') ''='' = (k, v, True)"
            "list_all (\<lambda>l. \<forall>v'. str_cut (trim_right [CHR 0x0D] l) ''='' \<noteq> (k, v', True)) pre" by auto
        have "\<forall>v'. str_cut (trim_right [CHR 0x0D] l) ''='' \<noteq> (k, v', True)" using False kn by blast
        with r None show ?thesis by (intro disjI2 conjI exI [of _ "l # pre"] exI [of _ l'] exI [of _ post]) auto
      qed
    qed
  qed simp
  from this [of "split_at CHR 0x0A out" ev] assms show ?thesis by (simp add: UpdateFromImageEnv_def)
qed

end
