(* ===== verification/KubeJob.thy ===== *)
theory KubeJob
  imports KubeEnv
begin

text \<open>
  What a job becomes on the Kubernetes backend, \<^verbatim>\<open>act/runner/run_context_kubernetes.go\<close>: its services as
  sidecars, what it asks for that a Pod cannot give, and the input of its Pod. Interpolation of expressions and
  the parser of docker's container options are arguments. A log line is its text; a map is visited in the order
  of its list, which the code leaves open.
\<close>

section \<open>Configuration\<close>

record KubernetesConfig =
  KNamespace :: string
  KServiceAccountName :: string
  KImagePullSecrets :: "string list"
  KImagePullPolicy :: string
  KPodLabels :: env
  KPodAnnotations :: env
  KNodeSelector :: env
  KTolerations :: "Toleration list"
  KResources :: PodResources
  KSecurityContext :: PodSecurityContext
  KSchedulingTimeout :: int
  KServiceReadyTimeout :: int
  KTerminationGracePeriod :: int

record kube_run =
  Workdir :: string
  ContainerOptions :: string
  ContainerMaxLifetime :: int
  ServiceTimeout :: int
  ForcePull :: bool
  PrivilegedJobs :: bool
  UsePTY :: bool
  ProxyEnv :: env
  Kubernetes :: KubernetesConfig

record service_spec =
  SpecImage :: string
  SpecEnv :: env
  SpecCmd :: "string list"
  SpecVolumes :: "string list"
  SpecOptions :: string
  SpecCredentials :: env

record container_spec =
  CtOptions :: string
  CtVolumes :: "string list"
  CtPorts :: "string list"
  CtCredentials :: env

definition DefaultToolCache :: string where "DefaultToolCache = ''/opt/hostedtoolcache''"

definition GetActPath :: string where "GetActPath = ''/var/run/act''"

definition toolCache :: "env \<Rightarrow> string \<Rightarrow> string" where
  "toolCache ev fallback =
     (if dict_get ev ''RUNNER_TOOL_CACHE'' \<noteq> [] then dict_get ev ''RUNNER_TOOL_CACHE'' else fallback)"

definition RunnerContext :: "string \<Rightarrow> env \<Rightarrow> env" where
  "RunnerContext goarch nodeSelector =
     [(''os'', ''Linux''), (''arch'', runnerArch goarch nodeSelector), (''temp'', ''/tmp''), (''tool_cache'', DefaultToolCache)]"

text \<open>\<^verbatim>\<open>strings.ToUpper\<close> of the keys, which are ASCII.\<close>

definition upper_char :: "char \<Rightarrow> char" where
  "upper_char c = (if 97 \<le> byte c \<and> byte c \<le> 122 then char_of (byte c - 32) else c)"

definition runnerEnvFrom :: "env \<Rightarrow> env \<Rightarrow> string list" where
  "runnerEnvFrom ev runnerContext =
     (let rctx = dict_put ''tool_cache'' (toolCache ev DefaultToolCache) runnerContext
      in sort (map (\<lambda>(key, v). ''RUNNER_'' @ map upper_char key @ ''='' @ v) rctx))"

text \<open>The path made absolute; a Windows one becomes the path under which WSL mounts it.\<close>

definition is_letter :: "char \<Rightarrow> bool" where
  "is_letter c = ((65 \<le> byte c \<and> byte c \<le> 90) \<or> (97 \<le> byte c \<and> byte c \<le> 122))"

definition ToContainerPath :: "string \<Rightarrow> string" where
  "ToContainerPath abspath =
     (case abspath of
        c # d # e # rest \<Rightarrow>
          if is_letter c \<and> d = CHR '':'' \<and> e = CHR 0x5C \<and> rest \<noteq> [] \<and> CHR 0x0A \<notin> set rest
          then join ''/'' [''/mnt'', to_lower [c], map (\<lambda>x. if x = CHR 0x5C then CHR ''/'' else x) rest]
          else abspath
      | _ \<Rightarrow> abspath)"

section \<open>Services\<close>

record container_opts =
  noHealthcheck :: bool
  healthCmd :: string
  healthInterval :: int
  healthTimeout :: int
  healthStartPeriod :: int
  healthRetries :: int

definition no_check :: ServiceHealthCheck where
  "no_check = \<lparr>Test = [], Interval = 0, Timeout = 0, StartPeriod = 0, Retries = 0\<rparr>"

definition ParseServiceHealthCheck ::
  "(string \<Rightarrow> go_error + container_opts) \<Rightarrow> string \<Rightarrow> go_error option \<times> ServiceHealthCheck" where
  "ParseServiceHealthCheck parseContainerOptions options =
     (if options = [] then (None, no_check)
      else case parseContainerOptions options of
             Inl e \<Rightarrow> (Some e, no_check)
           | Inr o' \<Rightarrow>
               if noHealthcheck o' \<or> healthCmd o' = [] then (None, no_check)
               else (None, \<lparr>Test = [''CMD-SHELL'', healthCmd o'], Interval = healthInterval o', Timeout = healthTimeout o',
                 StartPeriod = healthStartPeriod o', Retries = healthRetries o'\<rparr>))"

definition service_env :: "(string \<Rightarrow> string) \<Rightarrow> env \<Rightarrow> service_spec \<Rightarrow> env" where
  "service_env interp proxy spec =
     fold (\<lambda>(k, v). dict_put k (interp v)) (SpecEnv spec) (maps_Copy [] proxy)"

definition health_warning :: "string \<Rightarrow> go_error option \<times> ServiceHealthCheck \<Rightarrow> string list" where
  "health_warning serviceID health =
     (case fst health of
        Some e \<Rightarrow> [''The service '' @ squote serviceID @ '' has options the runner could not read, so its readiness is not waited for: '' @ error_string e]
      | None \<Rightarrow>
          if \<not> Declared (snd health)
          then [''The service '' @ squote serviceID @ '' declares no --health-cmd, so its steps start as soon as the container does rather than when it is ready.'']
          else [])"

fun podServiceInputs ::
  "(string \<Rightarrow> string) \<Rightarrow> (string \<Rightarrow> go_error + container_opts) \<Rightarrow> env \<Rightarrow> (string \<times> service_spec) list \<Rightarrow>
   ServiceInput list \<times> string list" where
  "podServiceInputs interp popts proxy [] = ([], [])"
| "podServiceInputs interp popts proxy ((serviceID, spec) # rest) =
     (case podServiceInputs interp popts proxy rest of (services, msgs) \<Rightarrow>
        (if interp (SpecImage spec) = []
         then (services, (''The service '' @ squote serviceID @ '' will not be started because the container definition has an empty image.'') # msgs)
         else
           (let health = ParseServiceHealthCheck popts (interp (SpecOptions spec))
            in (\<lparr>SvcName = serviceID, ContainerName = [], SvcImage = interp (SpecImage spec), SvcEntrypoint = [],
                  SvcCmd = map interp (SpecCmd spec),
                  SvcEnv = map (\<lambda>(k, v). k @ ''='' @ v) (service_env interp proxy spec),
                  HealthCheck = snd health\<rparr> # services,
                (if SpecVolumes spec \<noteq> [] then [''The service '' @ squote serviceID @ '' declares volumes, which the kubernetes backend does not support; they are ignored.''] else [])
                  @ health_warning serviceID health @ msgs))))"

section \<open>What a Pod cannot give\<close>

definition errUnsupportedInKubernetes :: "string \<Rightarrow> go_error" where
  "errUnsupportedInKubernetes what =
     Errorf (what @ '' is unsupported in kubernetes execution mode: job containers do not have access to a Docker daemon'')"

fun service_credentials :: "(string \<times> service_spec) list \<Rightarrow> go_error option" where
  "service_credentials [] = None"
| "service_credentials ((serviceID, spec) # rest) =
     (if SpecCredentials spec \<noteq> []
      then Some (errUnsupportedInKubernetes (''the service '' @ gq serviceID @ '' `credentials:`''))
      else service_credentials rest)"

definition checkUnsupportedCredentials ::
  "container_spec option \<Rightarrow> (string \<times> service_spec) list \<Rightarrow> go_error option" where
  "checkUnsupportedCredentials ct services =
     (case ct of
        Some c \<Rightarrow> if CtCredentials c \<noteq> [] then Some (errUnsupportedInKubernetes ''the job container's `credentials:`'')
          else service_credentials services
      | None \<Rightarrow> service_credentials services)"

definition warnUnsupportedJobContainer :: "string \<Rightarrow> container_spec option \<Rightarrow> string list" where
  "warnUnsupportedJobContainer runner_options ct =
     (if runner_options \<noteq> [] then [''The runner's container.options are not supported by the kubernetes backend and are ignored; use the kubernetes: section instead.''] else [])
     @ (case ct of
          None \<Rightarrow> []
        | Some c \<Rightarrow>
            (if CtOptions c \<noteq> [] then [''The job container's options are not supported by the kubernetes backend and are ignored; use the kubernetes: section instead.''] else [])
            @ (if CtVolumes c \<noteq> [] then [''The job container declares volumes, which the kubernetes backend does not support; they are ignored.''] else [])
            @ (if CtPorts c \<noteq> [] then [''The job container declares ports, which need no publishing in a Pod; they are ignored.''] else []))"

section \<open>The Pod of the job\<close>

text \<open>What the job brings: its container's name, its image, its environment, its services and container.\<close>

record kube_job =
  JobName :: string
  JobImage :: string
  JobEnv :: env
  JobServices :: "(string \<times> service_spec) list"
  JobContainer :: "container_spec option"

definition pod_input ::
  "int \<Rightarrow> string \<Rightarrow> PodOwner option \<Rightarrow> kube_run \<Rightarrow> kube_job \<Rightarrow> ServiceInput list \<Rightarrow> PodInput" where
  "pod_input defaultTimeout goarch owner run job services =
     (let kcfg = Kubernetes run;
          workdir = ToContainerPath (Workdir run);
          maxLifetime = ContainerMaxLifetime run
      in \<lparr>PodInputName = JobName job, PodImage = JobImage job,
          Entrypoint = [''/bin/sleep'', itoa (round_seconds maxLifetime)], Cmd = [], WorkingDir = workdir,
          PodEnv = runnerEnvFrom (JobEnv job) (RunnerContext goarch (KNodeSelector kcfg)) @ [''LANG=C.UTF-8''],
          AllocatePTY = UsePTY run, Services = services,
          MountPaths = [workdir, GetActPath, toolCache (JobEnv job) DefaultToolCache],
          MaxLifetime = maxLifetime, Owner = owner, Namespace = KNamespace kcfg,
          ServiceAccountName = KServiceAccountName kcfg, ImagePullSecrets = KImagePullSecrets kcfg,
          ImagePullPolicy = imagePullPolicy (KImagePullPolicy kcfg) (ForcePull run),
          PodLabels = KPodLabels kcfg, Annotations = KPodAnnotations kcfg, NodeSelector = KNodeSelector kcfg,
          Tolerations = KTolerations kcfg, Resources = KResources kcfg, SecurityContext = KSecurityContext kcfg,
          Privileged = PrivilegedJobs run, TerminationGracePeriod = KTerminationGracePeriod kcfg,
          SchedulingTimeout = KSchedulingTimeout kcfg,
          ServiceReadyTimeout = serviceReadyTimeout defaultTimeout (KServiceReadyTimeout kcfg) (ServiceTimeout run)\<rparr>)"

record sidecar =
  SideName :: string
  SideImage :: string
  SideContainer :: string

text \<open>\<^verbatim>\<open>startPodEnvironment\<close> up to the Pod it creates: the refusal, or the input of the environment and its sidecars.\<close>

definition start_pod ::
  "(string \<Rightarrow> string) \<Rightarrow> (string \<Rightarrow> string) \<Rightarrow> (string \<Rightarrow> go_error + container_opts) \<Rightarrow> int \<Rightarrow> string \<Rightarrow> PodOwner option \<Rightarrow>
   string \<Rightarrow> kube_run \<Rightarrow> kube_job \<Rightarrow> (go_error + PodInput \<times> sidecar list) option" where
  "start_pod ulower interp popts defaultTimeout goarch owner discovered run job =
     (case checkUnsupportedCredentials (JobContainer job) (JobServices job) of
        Some e \<Rightarrow> Some (Inl e)
      | None \<Rightarrow>
          (let services = fst (podServiceInputs interp popts (ProxyEnv run) (JobServices job))
           in map_option (\<lambda>inp. Inr (inp, map (\<lambda>s. \<lparr>SideName = SvcName s, SideImage = SvcImage s, SideContainer = ContainerName s\<rparr>) (Services inp)))
                (NewPodEnvironment ulower (resolveNamespace (KNamespace (Kubernetes run)) discovered)
                 (pod_input defaultTimeout goarch owner run job services))))"

section \<open>Properties\<close>

lemma assign_names_keep:
  "assign_names ulower used ss = Some ss' \<Longrightarrow> map (\<lambda>s. (SvcName s, SvcImage s)) ss' = map (\<lambda>s. (SvcName s, SvcImage s)) ss"
  by (induction ulower used ss arbitrary: ss' rule: assign_names.induct) (auto simp: Let_def split: option.splits)

lemma podServiceInputs_named:
  "map (\<lambda>s. (SvcName s, SvcImage s)) (fst (podServiceInputs interp popts proxy specs)) =
     map (\<lambda>(n, spec). (n, interp (SpecImage spec))) (filter (\<lambda>(n, spec). interp (SpecImage spec) \<noteq> []) specs)"
proof (induction specs)
  case (Cons x specs)
  obtain n spec services msgs where "x = (n, spec)" "podServiceInputs interp popts proxy specs = (services, msgs)"
    by (metis prod.collapse)
  with Cons show ?case by (auto simp: Let_def)
qed simp

lemma start_pod_Inr:
  assumes "start_pod ulower interp popts dt goarch owner discovered run job = Some (Inr (inp, sides))"
  shows "\<exists>ss. AssignServiceContainerNames ulower (fst (podServiceInputs interp popts (ProxyEnv run) (JobServices job))) = Some ss \<and>
    Services inp = ss \<and> sides = map (\<lambda>s. \<lparr>SideName = SvcName s, SideImage = SvcImage s, SideContainer = ContainerName s\<rparr>) ss \<and>
    Entrypoint inp = [''/bin/sleep'', itoa (round_seconds (ContainerMaxLifetime run))] \<and>
    MaxLifetime inp = ContainerMaxLifetime run \<and>
    WorkingDir inp = ToContainerPath (Workdir run) \<and>
    MountPaths inp = [ToContainerPath (Workdir run), GetActPath, toolCache (JobEnv job) DefaultToolCache]"
  using assms by (auto simp: start_pod_def NewPodEnvironment_def pod_input_def Let_def split: option.splits)


definition demo_run :: kube_run where
  "demo_run = \<lparr>Workdir = ''/w'', ContainerOptions = [], ContainerMaxLifetime = 90 * second, ServiceTimeout = 0, ForcePull = False,
     PrivilegedJobs = False, UsePTY = False, ProxyEnv = [],
     Kubernetes = \<lparr>KNamespace = [], KServiceAccountName = [], KImagePullSecrets = [], KImagePullPolicy = [], KPodLabels = [],
       KPodAnnotations = [], KNodeSelector = [], KTolerations = [],
       KResources = \<lparr>RequestsCPU = [], RequestsMemory = [], LimitsCPU = [], LimitsMemory = []\<rparr>,
       KSecurityContext = \<lparr>RunAsNonRoot = None, RunAsUser = None, FSGroup = None\<rparr>, KSchedulingTimeout = 0,
       KServiceReadyTimeout = 0, KTerminationGracePeriod = 0\<rparr>\<rparr>"

definition demo_job :: kube_job where
  "demo_job = \<lparr>JobName = ''j'', JobImage = ''i'', JobEnv = [],
     JobServices = [(''db'', \<lparr>SpecImage = ''pg'', SpecEnv = [], SpecCmd = [], SpecVolumes = [], SpecOptions = [], SpecCredentials = []\<rparr>),
       (''off'', \<lparr>SpecImage = [], SpecEnv = [], SpecCmd = [], SpecVolumes = [], SpecOptions = [], SpecCredentials = []\<rparr>)], JobContainer = None\<rparr>"


end
