(* ===== verification/RunEnv.thy ===== *)
theory RunEnv
  imports KubeJob EnvFile Labels
begin

text \<open>
  What a job runs in and with, from \<^verbatim>\<open>act/runner/run_context.go\<close>: its environment and the
  variables every step gets, the image and the backend its labels pick, the names of its container
  and network, the volumes it may mount and the ones it does, and the search path the workflow
  commands extend. The parser of volume specifications, the hash and the interpolation of
  expressions are arguments.
\<close>

section \<open>Configuration of a job\<close>

record github_context =
  gh_Workflow :: string
  gh_RunID :: string
  gh_RunNumber :: string
  gh_Action :: string
  gh_ActionPath :: string
  gh_ActionRepository :: string
  gh_ActionRef :: string
  gh_Actor :: string
  gh_Repository :: string
  gh_EventName :: string
  gh_EventPath :: string
  gh_Workspace :: string
  gh_Sha :: string
  gh_Ref :: string
  gh_RefName :: string
  gh_RefType :: string
  gh_Job :: string
  gh_RepositoryOwner :: string
  gh_RetentionDays :: string
  gh_RunnerPerflog :: string
  gh_RunnerTrackingID :: string
  gh_BaseRef :: string
  gh_HeadRef :: string
  gh_RunAttempt :: string
  gh_ServerURL :: string
  gh_APIURL :: string
  gh_GraphQLURL :: string

text \<open>The part of \<^verbatim>\<open>Config\<close> and of the workflow's model a job reads, with the expressions of its container
  resolved; the first fields stand for \<^verbatim>\<open>strings.ToLower\<close> and the system the runner itself is on.\<close>

record run_config =
  rcLower :: "string \<Rightarrow> string"
  rcDarwin :: bool
  rcSELinux :: bool
  rcRunnerName :: string
  rcSecrets :: env
  rcConfigEnv :: env
  rcGitHubInstance :: string
  rcWorkdir :: string
  rcNamePrefix :: string
  rcNetworkMode :: string
  rcDaemonSocket :: string
  rcValidVolumes :: "string list"
  rcPlatforms :: env
  rcPlatformPicker :: "(string list \<Rightarrow> string) option"
  rcArtifactServer :: "string \<times> string \<times> string"
  rcDisableActEnv :: bool
  rcNoSkipCheckout :: bool
  rcBindWorkdir :: bool
  rcPreset :: "github_context option"
  rcWorkflowName :: string
  rcWorkflowEnv :: env
  rcJobEnv :: env
  rcJobID :: string
  rcName :: string
  rcJobName :: string
  rcCaller :: "(string \<times> string) option"
  rcActionPath :: string
  rcContainerEnv :: "env option"
  rcContainerImage :: string
  rcContainerVolumes :: "string list"
  rcRunsOn :: "string list option"
  rcPlatformNames :: "string list"

definition RunnerDebug :: "run_config \<Rightarrow> bool" where
  "RunnerDebug cfg =
     (dict_get (rcSecrets cfg) ''ACTIONS_STEP_DEBUG'' = ''true'' \<or> dict_get (rcConfigEnv cfg) ''ACTIONS_STEP_DEBUG'' = ''true'')"

definition GetToken :: "run_config \<Rightarrow> string" where
  "GetToken cfg =
     (let token = dict_get (rcSecrets cfg) ''GITHUB_TOKEN''
      in if dict_get (rcSecrets cfg) ''GITEA_TOKEN'' \<noteq> [] then dict_get (rcSecrets cfg) ''GITEA_TOKEN'' else token)"

section \<open>The environment of the job\<close>

definition mergeMaps :: "env list \<Rightarrow> env" where
  "mergeMaps ms = fold (\<lambda>m rtnMap. maps_Copy rtnMap m) ms []"

text \<open>
  An environment that is not made yet is empty here; one that is made and empty is made again
  from the same sources, which gives the empty one.
\<close>

definition GetEnv :: "run_config \<Rightarrow> env \<Rightarrow> env" where
  "GetEnv cfg ev =
     (let ev = (if ev = [] then mergeMaps [rcWorkflowEnv cfg, rcJobEnv cfg, rcConfigEnv cfg] else ev);
          ev = (if \<not> rcDisableActEnv cfg then dict_put ''ACT'' ''true'' ev else ev)
      in if \<not> rcNoSkipCheckout cfg then dict_put ''ACT_SKIP_CHECKOUT'' ''true'' ev else ev)"

text \<open>The instance's address as the job sees it.\<close>

definition instance_url :: "run_config \<Rightarrow> string" where
  "instance_url cfg =
     (let instance' = rcGitHubInstance cfg
      in if \<not> has_prefix ''http://'' instance' \<and> \<not> has_prefix ''https://'' instance' then ''https://'' @ instance' else instance')"

definition or_default :: "string \<Rightarrow> string \<Rightarrow> string" where
  "or_default v d = (if v = [] then d else v)"

text \<open>
  The context of a task: what the server preset, completed from the run. \<open>container\<close> tells whether
  the job's container is there; \<open>local\<close> completes a run without a preset from its repository.
\<close>

definition preset_context :: "run_config \<Rightarrow> github_context \<Rightarrow> github_context \<Rightarrow> github_context" where
  "preset_context cfg preset ghc = ghc
     \<lparr>gh_RunID := gh_RunID preset, gh_RunNumber := gh_RunNumber preset, gh_RunAttempt := gh_RunAttempt preset,
      gh_Actor := gh_Actor preset, gh_Repository := gh_Repository preset, gh_EventName := gh_EventName preset,
      gh_Sha := gh_Sha preset, gh_Ref := gh_Ref preset, gh_RefName := gh_RefName preset, gh_RefType := gh_RefType preset,
      gh_HeadRef := gh_HeadRef preset, gh_BaseRef := gh_BaseRef preset, gh_RepositoryOwner := gh_RepositoryOwner preset,
      gh_RetentionDays := gh_RetentionDays preset, gh_ServerURL := instance_url cfg,
      gh_APIURL := instance_url cfg @ ''/api/v1'', gh_GraphQLURL := []\<rparr>"

definition run_fields :: "run_config \<Rightarrow> bool \<Rightarrow> env \<Rightarrow> string \<Rightarrow> github_context \<Rightarrow> github_context" where
  "run_fields cfg container ev step ghc = (let c = dict_get (rcConfigEnv cfg) in ghc
     \<lparr>gh_Workflow := rcWorkflowName cfg, gh_RunID := or_default (c ''GITHUB_RUN_ID'') ''1'',
      gh_RunNumber := or_default (c ''GITHUB_RUN_NUMBER'') ''1'', gh_Action := step, gh_Job := rcJobID cfg,
      gh_ActionPath := rcActionPath cfg, gh_ActionRepository := dict_get ev ''GITHUB_ACTION_REPOSITORY'',
      gh_ActionRef := dict_get ev ''GITHUB_ACTION_REF'', gh_RepositoryOwner := c ''GITHUB_REPOSITORY_OWNER'',
      gh_RetentionDays := or_default (c ''GITHUB_RETENTION_DAYS'') ''0'',
      gh_RunnerPerflog := or_default (c ''RUNNER_PERFLOG'') ''/dev/null'', gh_RunnerTrackingID := c ''RUNNER_TRACKING_ID'',
      gh_Repository := c ''GITHUB_REPOSITORY'', gh_Ref := c ''GITHUB_REF'', gh_Sha := c ''SHA_REF'',
      gh_RefName := c ''GITHUB_REF_NAME'', gh_RefType := c ''GITHUB_REF_TYPE'', gh_BaseRef := c ''GITHUB_BASE_REF'',
      gh_HeadRef := c ''GITHUB_HEAD_REF'',
      gh_Workspace := (if container then ToContainerPath (rcWorkdir cfg) else c ''GITHUB_WORKSPACE''),
      gh_EventPath := (if container then GetActPath @ ''/workflow/event.json'' else [])\<rparr>)"

definition getGithubContext ::
  "(github_context \<Rightarrow> github_context) \<Rightarrow> run_config \<Rightarrow> string \<Rightarrow> string \<Rightarrow> bool \<Rightarrow> env \<Rightarrow> string \<Rightarrow> github_context" where
  "getGithubContext local' cfg actor eventName container ev step =
     (let ghc = run_fields cfg container ev step
            \<lparr>gh_Workflow = [], gh_RunID = [], gh_RunNumber = [], gh_Action = [], gh_ActionPath = [], gh_ActionRepository = [],
             gh_ActionRef = [], gh_Actor = or_default actor ''nektos/act'', gh_Repository = [], gh_EventName = eventName,
             gh_EventPath = [], gh_Workspace = [], gh_Sha = [], gh_Ref = [], gh_RefName = [], gh_RefType = [], gh_Job = [],
             gh_RepositoryOwner = [], gh_RetentionDays = [], gh_RunnerPerflog = [], gh_RunnerTrackingID = [], gh_BaseRef = [],
             gh_HeadRef = [], gh_RunAttempt = [], gh_ServerURL = [], gh_APIURL = [], gh_GraphQLURL = []\<rparr>
      in case rcPreset cfg of
           Some preset \<Rightarrow> preset_context cfg preset ghc
         | None \<Rightarrow>
             (let ghc = local' ghc; c = dict_get (rcConfigEnv cfg)
              in ghc\<lparr>gh_ServerURL := or_default (c ''GITHUB_SERVER_URL'') (instance_url cfg),
                     gh_APIURL := or_default (c ''GITHUB_API_URL'') (instance_url cfg @ ''/api/v1''),
                     gh_GraphQLURL := c ''GITHUB_GRAPHQL_URL''\<rparr>))"

section \<open>Image and backend\<close>

fun first_image :: "(string \<Rightarrow> string) \<Rightarrow> env \<Rightarrow> string list \<Rightarrow> string" where
  "first_image lower platforms [] = []"
| "first_image lower platforms (name # names) =
     (if dict_get platforms (lower name) \<noteq> [] then dict_get platforms (lower name) else first_image lower platforms names)"

definition runsOnImage :: "run_config \<Rightarrow> string" where
  "runsOnImage cfg =
     (let picked = (case rcPlatformPicker cfg of None \<Rightarrow> []
          | Some pick \<Rightarrow> pick (case rcRunsOn cfg of None \<Rightarrow> [] | Some r \<Rightarrow> r))
      in if picked \<noteq> [] then picked
         else first_image (rcLower cfg) (rcPlatforms cfg) (case rcRunsOn cfg of None \<Rightarrow> [] | Some r \<Rightarrow> rcPlatformNames cfg))"

definition stripImageScheme :: "string \<Rightarrow> string" where
  "stripImageScheme s =
     (case cut_prefix ''docker://'' s of Some v \<Rightarrow> v
      | None \<Rightarrow> (case cut_prefix ''kubernetes://'' s of Some v \<Rightarrow> v | None \<Rightarrow> s))"

definition platformImage :: "run_config \<Rightarrow> string" where
  "platformImage cfg = (if rcContainerImage cfg \<noteq> [] then rcContainerImage cfg else stripImageScheme (runsOnImage cfg))"

text \<open>\<^verbatim>\<open>strings.EqualFold\<close> against any ASCII word: two letters beyond ASCII fold to \<^verbatim>\<open>s\<close> and \<^verbatim>\<open>k\<close>.\<close>

definition fold_specials :: "(string \<times> string) list" where
  "fold_specials = [([CHR 0xC5, CHR 0xBF], ''s''), ([CHR 0xE2, CHR 0x84, CHR 0xAA], ''k'')]"

definition EqualFold :: "string \<Rightarrow> string \<Rightarrow> bool" where
  "EqualFold s word = equal_fold (go_replace fold_specials s) word"

datatype exec_backend = backendDocker | backendHost | backendKubernetes

text \<open>\<open>in_pod\<close>: the job's environment is a Pod already.\<close>

definition execBackend :: "bool \<Rightarrow> run_config \<Rightarrow> exec_backend" where
  "execBackend in_pod cfg =
     (if in_pod then backendKubernetes
      else let platform = runsOnImage cfg
           in if has_prefix ''kubernetes://'' platform then backendKubernetes
              else if EqualFold platform ''-self-hosted'' \<and> rcContainerImage cfg = [] then backendHost
              else backendDocker)"

text \<open>\<^verbatim>\<open>imageOSTag\<close> at a position behind a colon: family, an optional dash, digits, no slash behind them.\<close>

definition is_digit :: "char \<Rightarrow> bool" where
  "is_digit c = (48 \<le> byte c \<and> byte c \<le> 57)"

definition os_tag :: "string \<Rightarrow> string \<Rightarrow> string option" where
  "os_tag family s =
     (case cut_prefix family s of
        None \<Rightarrow> None
      | Some r \<Rightarrow>
          (let r = trim_prefix ''-'' r; ds = takeWhile is_digit r
           in if ds \<noteq> [] \<and> CHR ''/'' \<notin> set r then Some (family @ ds) else None))"

fun imageOSFromImage :: "string \<Rightarrow> string" where
  "imageOSFromImage [] = []"
| "imageOSFromImage (c # s) =
     (if c = CHR '':'' then
        (case os_tag ''ubuntu'' s of Some os \<Rightarrow> os
         | None \<Rightarrow> (case os_tag ''win'' s of Some os \<Rightarrow> os
           | None \<Rightarrow> (case os_tag ''macos'' s of Some os \<Rightarrow> os | None \<Rightarrow> imageOSFromImage s)))
      else imageOSFromImage s)"

fun label_os :: "string list \<Rightarrow> string" where
  "label_os [] = []"
| "label_os (name # names) =
     (if name = ''ubuntu-latest'' then ''ubuntu20''
      else if name \<noteq> [] then
        (let (before, after, found) = str_cut name ''-''; name' = (if found then before @ after else name)
         in hd (split_n CHR ''.'' 2 name'))
      else label_os names)"

definition imageOS :: "run_config \<Rightarrow> string" where
  "imageOS cfg =
     (case rcRunsOn cfg of
        None \<Rightarrow> []
      | Some _ \<Rightarrow>
          if imageOSFromImage (platformImage cfg) \<noteq> [] then imageOSFromImage (platformImage cfg)
          else label_os (rev (rcPlatformNames cfg)))"

section \<open>The variables of every step\<close>

fun last_separator :: "nat \<Rightarrow> string \<Rightarrow> nat option" where
  "last_separator i [] = None"
| "last_separator i (c # s) =
     (case last_separator (Suc i) s of
        Some j \<Rightarrow> Some j
      | None \<Rightarrow> if c = CHR ''/'' \<or> c = CHR 0x5C then Some i else None)"

definition parentDir :: "string \<Rightarrow> string" where
  "parentDir p = (case last_separator 0 p of None \<Rightarrow> [] | Some slash \<Rightarrow> if slash > 0 then take slash p else [])"

text \<open>\<open>osenv\<close> is the runner's own environment.\<close>

definition setActionRuntimeVars :: "(string \<Rightarrow> string) \<Rightarrow> run_config \<Rightarrow> env \<Rightarrow> env" where
  "setActionRuntimeVars osenv cfg ev =
     (case rcArtifactServer cfg of (path, addr, port) \<Rightarrow>
        dict_put ''ACTIONS_RUNTIME_TOKEN'' (or_default (osenv ''ACTIONS_RUNTIME_TOKEN'') ''token'')
          (dict_put ''ACTIONS_RUNTIME_URL''
             (or_default (osenv ''ACTIONS_RUNTIME_URL'') (''http://'' @ addr @ '':'' @ port @ ''/'')) ev))"

definition github_vars :: "run_config \<Rightarrow> github_context \<Rightarrow> env" where
  "github_vars cfg github =
     [(''CI'', ''true''), (''GITHUB_WORKFLOW'', gh_Workflow github), (''GITHUB_RUN_ID'', gh_RunID github),
      (''GITHUB_RUN_NUMBER'', gh_RunNumber github), (''GITHUB_ACTION'', gh_Action github),
      (''GITHUB_ACTION_PATH'', gh_ActionPath github), (''GITHUB_ACTION_REPOSITORY'', gh_ActionRepository github),
      (''GITHUB_ACTION_REF'', gh_ActionRef github), (''GITHUB_ACTIONS'', ''true''), (''GITHUB_ACTOR'', gh_Actor github),
      (''GITHUB_REPOSITORY'', gh_Repository github), (''GITHUB_EVENT_NAME'', gh_EventName github),
      (''GITHUB_EVENT_PATH'', gh_EventPath github), (''GITHUB_WORKSPACE'', gh_Workspace github),
      (''GITHUB_SHA'', gh_Sha github), (''GITHUB_REF'', gh_Ref github), (''GITHUB_REF_NAME'', gh_RefName github),
      (''GITHUB_REF_TYPE'', gh_RefType github), (''GITHUB_JOB'', gh_Job github),
      (''GITHUB_REPOSITORY_OWNER'', gh_RepositoryOwner github), (''GITHUB_RETENTION_DAYS'', gh_RetentionDays github),
      (''RUNNER_PERFLOG'', gh_RunnerPerflog github), (''RUNNER_TRACKING_ID'', gh_RunnerTrackingID github),
      (''GITHUB_BASE_REF'', gh_BaseRef github), (''GITHUB_HEAD_REF'', gh_HeadRef github),
      (''GITHUB_SERVER_URL'', instance_url cfg), (''GITHUB_API_URL'', instance_url cfg @ ''/api/v1''),
      (''GITHUB_GRAPHQL_URL'', []), (''GITHUB_RUN_ATTEMPT'', gh_RunAttempt github),
      (''RUNNER_NAME'', rcRunnerName cfg), (''RUNNER_ENVIRONMENT'', ''self-hosted'')]"

definition withGithubEnv :: "(string \<Rightarrow> string) \<Rightarrow> run_config \<Rightarrow> github_context \<Rightarrow> env \<Rightarrow> env" where
  "withGithubEnv osenv cfg github ev =
     (let ev = maps_Copy ev (github_vars cfg github);
          ev = (if parentDir (gh_Workspace github) \<noteq> [] then dict_put ''RUNNER_WORKSPACE'' (parentDir (gh_Workspace github)) ev else ev);
          ev = (if RunnerDebug cfg then dict_put ''RUNNER_DEBUG'' ''1'' ev else ev);
          ev = (if fst (rcArtifactServer cfg) \<noteq> [] then setActionRuntimeVars osenv cfg ev else ev)
      in if imageOS cfg \<noteq> [] then dict_put ''ImageOS'' (imageOS cfg) ev else ev)"

section \<open>Names\<close>

definition trimToLen :: "string \<Rightarrow> int \<Rightarrow> string" where
  "trimToLen s l = (let l = (if l < 0 then 0 else nat l) in if length s > l then take l s else s)"

definition name_char :: "char \<Rightarrow> bool" where
  "name_char c = (is_letter c \<or> is_digit c)"

text \<open>\<open>sha256_hex\<close>: the hash of the name, in hexadecimal.\<close>

definition createContainerName :: "(string \<Rightarrow> string) \<Rightarrow> string list \<Rightarrow> string" where
  "createContainerName sha256_hex parts =
     (let name = ReplaceAll (replace_other_runes name_char ''-'' (join ''-'' parts)) ''--'' ''-''
      in trim ''-'' (trimToLen name 63) @ ''-'' @ sha256_hex name)"

definition jobContainerName :: "(string \<Rightarrow> string) \<Rightarrow> run_config \<Rightarrow> string" where
  "jobContainerName sha256_hex cfg =
     createContainerName sha256_hex
       ([rcNamePrefix cfg, ''WORKFLOW-'' @ rcWorkflowName cfg, ''JOB-'' @ rcName cfg] @
        (case rcCaller cfg of None \<Rightarrow> [] | Some (callerName, callerJob) \<Rightarrow> [''CALLED-BY-'' @ callerJob]))"

definition rc_String :: "run_config \<Rightarrow> string" where
  "rc_String cfg =
     (let name = rcWorkflowName cfg @ ''/'' @ rcName cfg
      in case rcCaller cfg of None \<Rightarrow> name | Some (callerName, callerJob) \<Rightarrow> callerName @ ''/'' @ name)"

definition networkNameForGitea :: "(string \<Rightarrow> string) \<Rightarrow> run_config \<Rightarrow> string \<times> bool" where
  "networkNameForGitea sha256_hex cfg =
     (if rcNetworkMode cfg \<noteq> [] then (rcNetworkMode cfg, False)
      else (jobContainerName sha256_hex cfg @ ''-'' @ rcJobID cfg @ ''-network'', True))"

section \<open>Volumes\<close>

definition getDockerDaemonSocketMountPath :: "string \<Rightarrow> string" where
  "getDockerDaemonSocketMountPath daemonPath =
     (case str_cut daemonPath ''://'' of
        (scheme, after, ok) \<Rightarrow>
          if \<not> ok then daemonPath
          else if EqualFold scheme ''npipe'' then ''/var/run/docker.sock''
          else if EqualFold scheme ''unix'' then after
          else if list_all is_letter scheme then ''/var/run/docker.sock''
          else daemonPath)"

definition containerDaemonSocket :: "run_config \<Rightarrow> string" where
  "containerDaemonSocket cfg = or_default (rcDaemonSocket cfg) ''/var/run/docker.sock''"

definition validVolumes :: "(string \<Rightarrow> string) \<Rightarrow> run_config \<Rightarrow> string list" where
  "validVolumes sha256_hex cfg =
     (let name = jobContainerName sha256_hex cfg
      in rcValidVolumes cfg @ [''act-toolcache'', name, name @ ''-env'', getDockerDaemonSocketMountPath (containerDaemonSocket cfg)])"

record parsed_volume =
  vType :: string
  vSource :: string
  vTarget :: string
  vReadOnly :: bool

definition plain_volume :: "parsed_volume \<Rightarrow> bool" where
  "plain_volume v = (vType v = ''volume'' \<and> vSource v \<noteq> [] \<and> \<not> vReadOnly v)"

text \<open>The binds, the mounts by their source, and the paths claimed; \<open>parse\<close> fails with \<^term>\<open>None\<close>.\<close>

fun split_volumes ::
  "(string \<Rightarrow> parsed_volume option) \<Rightarrow> string list \<Rightarrow> string list \<times> env \<times> string list \<Rightarrow> string list \<times> env \<times> string list" where
  "split_volumes parse [] st = st"
| "split_volumes parse (spec # specs) (binds, mounts, targets) =
     split_volumes parse specs
       (case parse spec of
          None \<Rightarrow> (binds @ [spec], mounts, targets)
        | Some v \<Rightarrow>
            if plain_volume v then (binds, dict_put (vSource v) (vTarget v) mounts, vTarget v # targets)
            else (binds @ [spec], mounts, vTarget v # targets))"

definition splitVolumes :: "(string \<Rightarrow> parsed_volume option) \<Rightarrow> string list \<Rightarrow> string list \<times> env \<times> string list" where
  "splitVolumes parse specs = split_volumes parse specs ([], [], [])"

definition socket_binds :: "run_config \<Rightarrow> string list \<Rightarrow> string list" where
  "socket_binds cfg claimed =
     (let daemonSocket = containerDaemonSocket cfg
      in if daemonSocket \<noteq> ''-'' \<and> ''/var/run/docker.sock'' \<notin> set claimed
         then [getDockerDaemonSocketMountPath daemonSocket @ '':/var/run/docker.sock''] else [])"

definition GetBindsAndMounts ::
  "(string \<Rightarrow> parsed_volume option) \<Rightarrow> (string \<Rightarrow> string) \<Rightarrow> run_config \<Rightarrow> env \<Rightarrow> string list \<times> env" where
  "GetBindsAndMounts parse sha256_hex cfg ev =
     (case splitVolumes parse (rcContainerVolumes cfg) of
        (binds, mounts, claimed) \<Rightarrow>
          (let name = jobContainerName sha256_hex cfg;
               binds = binds @ socket_binds cfg claimed;
               tc = toolCache (GetEnv cfg ev) DefaultToolCache;
               mounts = (if tc \<notin> set claimed then dict_put ''act-toolcache'' tc mounts else mounts);
               mounts = dict_put (name @ ''-env'') GetActPath mounts;
               workdir = ToContainerPath (rcWorkdir cfg);
               bindModifiers = (if rcSELinux cfg then '':z'' else if rcDarwin cfg then '':delegated'' else [])
           in if workdir \<in> set claimed then (binds, mounts)
              else if rcBindWorkdir cfg then (binds @ [rcWorkdir cfg @ '':'' @ workdir @ bindModifiers], mounts)
              else (binds, dict_put name workdir mounts)))"

definition GetServiceBindsAndMounts ::
  "(string \<Rightarrow> parsed_volume option) \<Rightarrow> run_config \<Rightarrow> string list \<Rightarrow> string list \<times> env" where
  "GetServiceBindsAndMounts parse cfg svcVolumes =
     (case splitVolumes parse svcVolumes of
        (binds, mounts, claimed) \<Rightarrow> (binds @ socket_binds cfg claimed, mounts))"

section \<open>Credentials\<close>

text \<open>A service's credentials, and the job container's, which are checked once more as they were written.\<close>

definition handleServiceCredentials ::
  "(string \<Rightarrow> string) \<Rightarrow> env option \<Rightarrow> go_error + string \<times> string" where
  "handleServiceCredentials interp creds =
     (case creds of
        None \<Rightarrow> Inr ([], [])
      | Some c \<Rightarrow>
          if length c \<noteq> 2 then Inl (Errorf (''invalid property count for key '' @ squote ''credentials:''))
          else if interp (dict_get c ''username'') = [] then Inl (Errorf ''failed to interpolate credentials.username'')
          else if interp (dict_get c ''password'') = [] then Inl (Errorf ''failed to interpolate credentials.password'')
          else Inr (interp (dict_get c ''username''), interp (dict_get c ''password'')))"

definition handleCredentials :: "(string \<Rightarrow> string) \<Rightarrow> env option \<Rightarrow> go_error + string \<times> string" where
  "handleCredentials interp creds =
     (case creds of
        None \<Rightarrow> Inr ([], [])
      | Some c \<Rightarrow>
          if length c \<noteq> 2 then Inl (Errorf (''invalid property count for key '' @ squote ''credentials:''))
          else if interp (dict_get c ''username'') = [] then Inl (Errorf ''failed to interpolate container.credentials.username'')
          else if interp (dict_get c ''password'') = [] then Inl (Errorf ''failed to interpolate container.credentials.password'')
          else if dict_get c ''username'' = [] \<or> dict_get c ''password'' = []
               then Inl (Errorf ''container.credentials cannot be empty'')
          else Inr (interp (dict_get c ''username''), interp (dict_get c ''password'')))"

section \<open>Facts about the environment\<close>

lemma maps_Copy_get: "dict_wf m \<Longrightarrow> k \<in> fst ` set m \<Longrightarrow> map_of (maps_Copy target m) k = map_of m k"
  by (auto simp: map_of_maps_Copy map_add_def map_of_eq_None_iff split: option.splits)

lemma github_vars_wf: "dict_wf (github_vars cfg github)"
  by (simp add: dict_wf_def github_vars_def)

text \<open>No job can give a variable of the run a value of its own.\<close>

lemma withGithubEnv_fixes:
  assumes "k \<in> fst ` set (github_vars cfg github)"
  shows "map_of (withGithubEnv osenv cfg github ev) k = map_of (github_vars cfg github) k"
proof -
  have other: "''RUNNER_WORKSPACE'' \<notin> fst ` set (github_vars cfg github)"
    "''RUNNER_DEBUG'' \<notin> fst ` set (github_vars cfg github)"
    "''ACTIONS_RUNTIME_URL'' \<notin> fst ` set (github_vars cfg github)"
    "''ACTIONS_RUNTIME_TOKEN'' \<notin> fst ` set (github_vars cfg github)"
    "''ImageOS'' \<notin> fst ` set (github_vars cfg github)"
    by (simp_all add: github_vars_def)
  have n: "k \<noteq> ''RUNNER_WORKSPACE''" "k \<noteq> ''RUNNER_DEBUG''" "k \<noteq> ''ACTIONS_RUNTIME_URL''"
    "k \<noteq> ''ACTIONS_RUNTIME_TOKEN''" "k \<noteq> ''ImageOS''"
    using assms other by blast+
  have "map_of (maps_Copy ev (github_vars cfg github)) k = map_of (github_vars cfg github) k"
    by (rule maps_Copy_get [OF github_vars_wf assms])
  with n show ?thesis
    by (simp add: withGithubEnv_def Let_def update_conv' setActionRuntimeVars_def split: prod.split)
qed

section \<open>Facts about the backend\<close>

lemma go_replace_head:
  "c \<notin> {CHR 0xC5, CHR 0xE2} \<Longrightarrow> go_replace fold_specials (c # s) = c # go_replace fold_specials s"
  by (rule go_replace_miss) (auto simp: fold_specials_def hit_def)

lemma not_self_hosted: "c \<notin> {CHR 0xC5, CHR 0xE2, CHR ''-''} \<Longrightarrow> \<not> EqualFold (c # s) ''-self-hosted''"
proof -
  assume c: "c \<notin> {CHR 0xC5, CHR 0xE2, CHR ''-''}"
  have m: "(of_char CHR ''-'' :: nat) = 45" by simp
  have "lower_char c \<noteq> CHR ''-''"
  proof (cases "65 \<le> (of_char c :: nat) \<and> (of_char c :: nat) \<le> 90")
    case True
    then have "(of_char (lower_char c) :: nat) = of_char c + 32" by (simp add: lower_char_def)
    then show ?thesis using True m by auto
  next
    case False
    then have "lower_char c = c" by (auto simp: lower_char_def)
    with c show ?thesis by simp
  qed
  moreover have "lower_char CHR ''-'' = CHR ''-''" by (simp add: lower_char_def)
  ultimately show ?thesis
    using c by (auto simp: EqualFold_def go_replace_head equal_fold_def to_lower_def)
qed

lemma self_hosted: "EqualFold ''-self-hosted'' ''-self-hosted''"
  by (simp add: EqualFold_def go_replace_head equal_fold_def)

lemma picked_image:
  assumes "rcPlatformPicker cfg = Some (PickPlatform l)" and "rcRunsOn cfg = Some runsOn"
    and "PickPlatform l runsOn \<noteq> []"
  shows "runsOnImage cfg = PickPlatform l runsOn"
  using assms by (simp add: runsOnImage_def)

section \<open>Facts about volumes\<close>

text \<open>What the loop has gathered, in terms of the volumes that parse.\<close>

definition plain_sources :: "(string \<Rightarrow> parsed_volume option) \<Rightarrow> string list \<Rightarrow> string list" where
  "plain_sources parse specs = map vSource (filter plain_volume (List.map_filter parse specs))"

lemma split_volumes_mounts:
  assumes "distinct (plain_sources parse specs)"
  shows "map_of (fst (snd (split_volumes parse specs (b, m, t)))) =
    map_of m ++ map_of (map (\<lambda>v. (vSource v, vTarget v)) (filter plain_volume (List.map_filter parse specs)))"
  using assms
proof (induction specs arbitrary: b m t)
  case (Cons spec specs)
  show ?case
  proof (cases "parse spec")
    case None
    with Cons show ?thesis by (simp add: plain_sources_def map_filter_simps)
  next
    case (Some v)
    show ?thesis
    proof (cases "plain_volume v")
      case True
      with Cons.prems Some have d: "distinct (plain_sources parse specs)"
        and n: "vSource v \<notin> set (plain_sources parse specs)"
        by (simp_all add: plain_sources_def map_filter_simps)
      let ?r = "map (\<lambda>v. (vSource v, vTarget v)) (filter plain_volume (List.map_filter parse specs))"
      have "map_of ?r (vSource v) = None"
        using n by (simp add: plain_sources_def map_of_eq_None_iff image_image)
      then have "(map_of m)(vSource v \<mapsto> vTarget v) ++ map_of ?r = map_of m ++ (map_of ?r)(vSource v \<mapsto> vTarget v)"
        by (auto simp: map_add_def fun_eq_iff split: option.splits)
      then show ?thesis
        using Some True Cons.IH [OF d] by (simp add: map_filter_simps update_conv fun_upd_def)
    next
      case False
      with Cons Some show ?thesis by (simp add: plain_sources_def map_filter_simps)
    qed
  qed
qed (simp add: map_filter_simps)

lemma split_volumes_targets:
  "set (snd (snd (split_volumes parse specs (b, m, t)))) = set t \<union> vTarget ` set (List.map_filter parse specs)"
  by (induction specs arbitrary: b m t) (auto simp: map_filter_simps split: option.splits)

text \<open>A volume named twice is mounted once, at the second place, though both are claimed.\<close>

lemma volume_named_twice:
  "splitVolumes (\<lambda>s. Some \<lparr>vType = ''volume'', vSource = ''data'', vTarget = s, vReadOnly = False\<rparr>) [''/a'', ''/b''] =
     ([], [(''data'', ''/b'')], [''/b'', ''/a''])"
  by (simp add: splitVolumes_def plain_volume_def)
section \<open>Properties\<close>


definition demo_config :: run_config where
  "demo_config = \<lparr>rcLower = to_lower, rcDarwin = False, rcSELinux = False, rcRunnerName = ''r'', rcSecrets = [],
     rcConfigEnv = [], rcGitHubInstance = ''gitea.com'', rcWorkdir = ''/w'', rcNamePrefix = ''p'', rcNetworkMode = [],
     rcDaemonSocket = [], rcValidVolumes = [], rcPlatforms = [], rcPlatformPicker = None,
     rcArtifactServer = ([], [], []), rcDisableActEnv = False, rcNoSkipCheckout = False, rcBindWorkdir = False,
     rcPreset = None, rcWorkflowName = ''ci'', rcWorkflowEnv = [], rcJobEnv = [], rcJobID = ''build'',
     rcName = ''build'', rcJobName = ''build'', rcCaller = None, rcActionPath = [], rcContainerEnv = None,
     rcContainerImage = [], rcContainerVolumes = [], rcRunsOn = None, rcPlatformNames = []\<rparr>"




end
