(* ===== verification/StepExec.thy ===== *)
theory StepExec
  imports RunEnv
begin

text \<open>
  How a step is run, \<^verbatim>\<open>act/runner/step.go\<close>, and the hooks around a job, \<^verbatim>\<open>act/runner/job_hooks.go\<close>:
  the environment a step gets, whether it runs, its timeout, its outcome and conclusion, and the files
  through which it hands variables, outputs and paths to the steps behind it. The job's container is a
  record of operations, every one an executor over the world; the evaluation of expressions is one of
  functions that read the world.
\<close>

section \<open>Stages\<close>

datatype stepStage = stepStagePre | stepStageMain | stepStagePost

text \<open>The stages are numbered in the order in which a job goes through them.\<close>

fun stage_rank :: "stepStage \<Rightarrow> nat" where
  "stage_rank stepStagePre = 0"
| "stage_rank stepStageMain = 1"
| "stage_rank stepStagePost = 2"

lemma stage_rank_inj: "stage_rank a = stage_rank b \<Longrightarrow> a = b"
  by (cases a; cases b) auto

instantiation stepStage :: linorder
begin

definition less_eq_stepStage :: "stepStage \<Rightarrow> stepStage \<Rightarrow> bool" where
  "less_eq_stepStage a b = (stage_rank a \<le> stage_rank b)"

definition less_stepStage :: "stepStage \<Rightarrow> stepStage \<Rightarrow> bool" where
  "less_stepStage a b = (stage_rank a < stage_rank b)"

instance
  by standard (auto simp: less_eq_stepStage_def less_stepStage_def intro: stage_rank_inj)

end

fun stage_String :: "stepStage \<Rightarrow> string" where
  "stage_String stepStagePre = ''Pre''"
| "stage_String stepStageMain = ''Main''"
| "stage_String stepStagePost = ''Post''"

section \<open>Steps and their world\<close>

text \<open>
  \<open>stepEnvs\<close> holds what \<^verbatim>\<open>*step.getEnv()\<close> points to, by the identity of the step; \<open>loggedResults\<close>
  the results handed to the reporter with a log entry. The run context's \<^verbatim>\<open>CurrentStepIndex\<close> and the
  initialised summary files are those of the outermost context.
\<close>

record step_world = run_context +
  stepEnvs :: "nat \<Rightarrow> env"
  loggedResults :: "StepStatus list"

record step_model =
  step_ID :: string
  step_Number :: nat
  step_Display :: string
  step_Env :: env
  RawContinueOnError :: string
  TimeoutMinutes :: string

record 'w step =
  object :: nat
  getStepModel :: step_model
  getIfExpression :: "stepStage \<Rightarrow> 'w \<Rightarrow> string"
  step_github :: "'w \<Rightarrow> github_context"

datatype status_check = DefaultStatusCheckNone | DefaultStatusCheckSuccess | DefaultStatusCheckAlways

record 'w evaluator =
  Interpolate :: "'w \<Rightarrow> string \<Rightarrow> string"
  InterpolateEnv :: "env \<Rightarrow> 'w \<Rightarrow> string \<Rightarrow> string"
  EvalBool :: "env \<Rightarrow> 'w \<Rightarrow> string \<Rightarrow> status_check \<Rightarrow> go_error + bool"

record 'w job_container =
  Copy :: "string \<Rightarrow> (string \<times> string) list \<Rightarrow> 'w executor"
  ExecIn :: "string list \<Rightarrow> env \<Rightarrow> 'w executor"
  GetContainerArchive :: "string \<Rightarrow> ctx \<Rightarrow> 'w \<Rightarrow> (go_error + archive) \<times> 'w"
  UpdateFromImage :: "ctx \<Rightarrow> 'w \<Rightarrow> env option \<times> 'w"
  PathVariableName :: string
  DefaultPathVariable :: string
  JoinPathVariable :: "string list \<Rightarrow> string"
  decodeByBOM :: "string \<Rightarrow> string"

text \<open>What is fixed for a job: its configuration, the runner's own environment, the container and the evaluator.\<close>

record 'w job_env =
  jcfg :: run_config
  josenv :: "string \<Rightarrow> string"
  jcont :: "'w job_container"
  jev :: "'w evaluator"
  jhooks :: "string \<times> string"

definition getEnv :: "'w step \<Rightarrow> 'a step_world_scheme \<Rightarrow> env" where
  "getEnv s w = stepEnvs w (object s)"

definition put_env :: "'w step \<Rightarrow> (env \<Rightarrow> env) \<Rightarrow> 'a step_world_scheme \<Rightarrow> 'a step_world_scheme" where
  "put_env s f w = w\<lparr>stepEnvs := (stepEnvs w)(object s := f (getEnv s w))\<rparr>"

section \<open>Files that carry commands\<close>

definition join_path :: "string \<Rightarrow> string \<Rightarrow> string" where
  "join_path a b = a @ ''/'' @ b"

definition UpdateFromEnv ::
  "'w job_container \<Rightarrow> string \<Rightarrow> ctx \<Rightarrow> 'w \<Rightarrow> (go_error option \<times> env) \<times> 'w" where
  "UpdateFromEnv c path ctx w =
     (case GetContainerArchive c path ctx w of
        (a, w') \<Rightarrow> (parseEnvFile (decodeByBOM c) (case a of Inl e \<Rightarrow> NoArchive | Inr t \<Rightarrow> t) [], w'))"

definition processRunnerEnvFileCommand ::
  "'w job_container \<Rightarrow> string \<Rightarrow> (env \<Rightarrow> string \<Rightarrow> 'w \<Rightarrow> 'w) \<Rightarrow> 'w executor" where
  "processRunnerEnvFileCommand c fileName setter = (\<lambda>ctx w.
     case UpdateFromEnv c (join_path GetActPath fileName) ctx w of
       ((Some err, kvs), w') \<Rightarrow> (Some err, w')
     | ((None, kvs), w') \<Rightarrow> (None, fold (\<lambda>(k, v). setter [(''name'', k)] v) kvs w'))"

definition scanner_token :: nat where "scanner_token = 64 * 1024"

definition UpdateExtraPath ::
  "'a step_world_scheme job_container \<Rightarrow> string \<Rightarrow> 'a step_world_scheme executor" where
  "UpdateExtraPath c path = (\<lambda>ctx w.
     case GetContainerArchive c path ctx w of
       (Inl err, w') \<Rightarrow> (Some err, w')
     | (Inr (BadTar err), w') \<Rightarrow> (Some err, w')
     | (Inr (TarEntry s), w') \<Rightarrow>
         (None, fold (\<lambda>line w. if line \<noteq> [] then addPath line w else w) (fst (scanner_lines scanner_token s)) w')
     | (Inr _, w') \<Rightarrow> (None, w'))"

text \<open>The search path of a process: what the steps added, in front of the step's, the image's or the default one.\<close>

definition path_key :: "bool \<Rightarrow> string \<Rightarrow> env \<Rightarrow> string" where
  "path_key fold_case path e =
     (if fold_case
      then (case find (\<lambda>(k, v). equal_fold path k) e of Some (k, v) \<Rightarrow> k | None \<Rightarrow> path)
      else path)"

definition ApplyExtraPath ::
  "'a step_world_scheme job_container \<Rightarrow> ctx \<Rightarrow> env \<Rightarrow> 'a step_world_scheme \<Rightarrow> env \<times> 'a step_world_scheme" where
  "ApplyExtraPath c ctx e w =
     (if ExtraPath w = [] then (e, w)
      else
        (let path = path_key (caseInsensitive w) (PathVariableName c) e;
             (e, w) = (if dict_get e path \<noteq> [] then (e, w)
               else case UpdateFromImage c ctx w of
                 (cenv, w') \<Rightarrow>
                   (let cpath = (case cenv of None \<Rightarrow> [] | Some ce \<Rightarrow> dict_get ce path)
                    in (dict_put path (or_default cpath (DefaultPathVariable c)) e, w')))
         in (dict_put path (JoinPathVariable c (ExtraPath w @ [dict_get e path])) e, w)))"

section \<open>The environment of a step\<close>

definition mergeEnv :: "'a step_world_scheme job_env \<Rightarrow> 'a step_world_scheme step \<Rightarrow> 'a step_world_scheme \<Rightarrow> 'a step_world_scheme" where
  "mergeEnv E s w =
     (let w = w\<lparr>Env := GetEnv (jcfg E) (Env w)\<rparr>;
          w = put_env s (\<lambda>e. mergeIntoMap w e
            (case rcContainerEnv (jcfg E) of Some c \<Rightarrow> [Env w, c] | None \<Rightarrow> [Env w])) w
      in put_env s (withGithubEnv (josenv E) (jcfg E) (step_github s w)) w)"

text \<open>
  The two passes over the step's variables: those that are not inputs read the run context, then the
  inputs read the variables as they are by then.
\<close>

definition interp_vars :: "(env \<Rightarrow> string \<Rightarrow> string) \<Rightarrow> (string \<Rightarrow> bool) \<Rightarrow> env \<Rightarrow> env" where
  "interp_vars interp p e = fold (\<lambda>(k, v) acc. if p k then dict_put k (interp acc v) acc else acc) e e"

definition setupEnv :: "'a step_world_scheme job_env \<Rightarrow> 'a step_world_scheme step \<Rightarrow> 'a step_world_scheme \<Rightarrow> 'a step_world_scheme" where
  "setupEnv E s w =
     (let w = mergeEnv E s w;
          w = put_env s (\<lambda>e. mergeIntoMap w e [step_Env (getStepModel s)]) w;
          w = put_env s (interp_vars (\<lambda>_. Interpolate (jev E) w) (\<lambda>k. \<not> has_prefix ''INPUT_'' k)) w
      in put_env s (interp_vars (\<lambda>e. InterpolateEnv (jev E) e w) (has_prefix ''INPUT_'')) w)"

section \<open>Running a step\<close>

definition if_error :: "string \<Rightarrow> go_error \<Rightarrow> go_error" where
  "if_error expr err = Errorf (''if-expression '' @ gq expr @ '' evaluation failed: '' @ error_string err)"

definition isStepEnabled ::
  "'a step_world_scheme job_env \<Rightarrow> string \<Rightarrow> 'a step_world_scheme step \<Rightarrow> stepStage \<Rightarrow> 'a step_world_scheme \<Rightarrow> go_error + bool" where
  "isStepEnabled E expr s stage w =
     (let defaultStatusCheck = (if stage = stepStagePost then DefaultStatusCheckAlways else DefaultStatusCheckSuccess)
      in case EvalBool (jev E) (getEnv s w) w expr defaultStatusCheck of
           Inl err \<Rightarrow> Inl (if_error expr err)
         | Inr runStep \<Rightarrow> Inr runStep)"

definition isContinueOnError ::
  "'a step_world_scheme job_env \<Rightarrow> string \<Rightarrow> 'a step_world_scheme step \<Rightarrow> 'a step_world_scheme \<Rightarrow> go_error + bool" where
  "isContinueOnError E expr s w =
     (if trim_space expr = [] then Inr False
      else case EvalBool (jev E) (getEnv s w) w expr DefaultStatusCheckNone of
        Inl err \<Rightarrow> Inl (Errorf (''continue-on-error expression '' @ gq expr @ '' evaluation failed: '' @ error_string err))
      | Inr b \<Rightarrow> Inr b)"

definition minute :: int where "minute = 60 * 10 ^ 9"

definition minutes_timeout :: "string \<Rightarrow> ctx \<Rightarrow> 'a go_world_scheme \<Rightarrow> ctx \<times> 'a go_world_scheme" where
  "minutes_timeout timeout ctx w =
     (case (if timeout = [] then None else parse_int timeout) of
        Some m \<Rightarrow> WithTimeout ctx (i64 (m * minute)) w
      | None \<Rightarrow> (ctx, w))"

definition evaluateStepTimeout ::
  "'a step_world_scheme job_env \<Rightarrow> step_model \<Rightarrow> ctx \<Rightarrow> 'a step_world_scheme \<Rightarrow> ctx \<times> 'a step_world_scheme" where
  "evaluateStepTimeout E stepModel ctx w = minutes_timeout (Interpolate (jev E) w (TimeoutMinutes stepModel)) ctx w"

definition fresh_result :: StepResult where
  "fresh_result = \<lparr>Outcome = StepStatusSuccess, Conclusion = StepStatusSuccess, Outputs = []\<rparr>"

text \<open>
  The step's result: the main stage shares it with the run context, the other stages keep it to
  themselves, where nothing reads it but the entries logged with its outcome.
\<close>

definition set_result ::
  "stepStage \<Rightarrow> string \<Rightarrow> (StepResult \<Rightarrow> StepResult) \<Rightarrow> 'a run_context_scheme \<Rightarrow> 'a run_context_scheme" where
  "set_result stage key f w =
     (if stage = stepStageMain
      then w\<lparr>StepResults := dict_put key
        (f (case map_of (StepResults w) key of None \<Rightarrow> fresh_result | Some r \<Rightarrow> r)) (StepResults w)\<rparr>
      else w)"

definition outputFileCommand :: string where "outputFileCommand = ''workflow/outputcmd.txt''"
definition stateFileCommand :: string where "stateFileCommand = ''workflow/statecmd.txt''"
definition pathFileCommand :: string where "pathFileCommand = ''workflow/pathcmd.txt''"
definition envFileCommand :: string where "envFileCommand = ''workflow/envs.txt''"

definition summaryFileCommand :: "nat \<Rightarrow> string" where
  "summaryFileCommand i = ''workflow/step-summary-'' @ itoa (int i) @ ''.md''"

definition file_vars :: "nat \<Rightarrow> env" where
  "file_vars i =
     [(''GITHUB_OUTPUT'', join_path GetActPath outputFileCommand), (''GITHUB_STATE'', join_path GetActPath stateFileCommand),
      (''GITHUB_PATH'', join_path GetActPath pathFileCommand), (''GITHUB_ENV'', join_path GetActPath envFileCommand),
      (''GITHUB_STEP_SUMMARY'', join_path GetActPath (summaryFileCommand i)),
      (''GITEA_OUTPUT'', join_path GetActPath outputFileCommand), (''GITEA_STATE'', join_path GetActPath stateFileCommand),
      (''GITEA_PATH'', join_path GetActPath pathFileCommand), (''GITEA_ENV'', join_path GetActPath envFileCommand),
      (''GITEA_STEP_SUMMARY'', join_path GetActPath (summaryFileCommand i))]"

text \<open>The command files are emptied before every stage; the summary file once per step of the job.\<close>

definition reset_files ::
  "'a step_world_scheme job_env \<Rightarrow> ctx \<Rightarrow> 'a step_world_scheme \<Rightarrow> 'a step_world_scheme" where
  "reset_files E ctx w =
     (let i = CurrentStepIndex w;
          files = [(outputFileCommand, []), (stateFileCommand, []), (pathFileCommand, []), (envFileCommand, [])];
          new = i \<notin> set (summaryFileInitialized w);
          w = (if new then w\<lparr>summaryFileInitialized := i # summaryFileInitialized w\<rparr> else w)
      in snd (Copy (jcont E) GetActPath (if new then files @ [(summaryFileCommand i, [])] else files) ctx w))"

definition log_result :: "StepStatus \<Rightarrow> 'a step_world_scheme \<Rightarrow> 'a step_world_scheme" where
  "log_result r w = w\<lparr>loggedResults := loggedResults w @ [r]\<rparr>"

text \<open>The verdict on what the step's executor returned: the error the step goes on with.\<close>

definition conclude ::
  "'a step_world_scheme job_env \<Rightarrow> 'a step_world_scheme step \<Rightarrow> stepStage \<Rightarrow> string \<Rightarrow> go_error option \<Rightarrow>
   'a step_world_scheme \<Rightarrow> (go_error + go_error option) \<times> 'a step_world_scheme" where
  "conclude E s stage title err w =
     (let key = step_ID (getStepModel s)
      in case err of
           None \<Rightarrow> (Inr None, Infof (''Success - '' @ title) (log_result StepStatusSuccess w))
         | Some e \<Rightarrow>
             (let w = set_result stage key (\<lambda>r. r\<lparr>Outcome := StepStatusFailure\<rparr>) w
              in case isContinueOnError E (RawContinueOnError (getStepModel s)) s w of
                   Inl parseErr \<Rightarrow> (Inl parseErr, set_result stage key (\<lambda>r. r\<lparr>Conclusion := StepStatusFailure\<rparr>) w)
                 | Inr True \<Rightarrow>
                     (Inr None, Infof (''Failure - '' @ title) (log_result StepStatusFailure
                        (set_result stage key (\<lambda>r. r\<lparr>Conclusion := StepStatusSuccess\<rparr>)
                          (Infof ''Failed but continue next step''
                            (log_at LevelError False (''##[error]'' @ EscapeCommandData (error_string e)) w)))))
                 | Inr False \<Rightarrow>
                     (Inr (Some e), Infof (''Failure - '' @ title) (log_result StepStatusFailure
                        (set_result stage key (\<lambda>r. r\<lparr>Conclusion := StepStatusFailure\<rparr>) w)))))"

text \<open>The files the step wrote, in order; an unreadable one is the step's error, else the one it has.\<close>

definition and_then :: "'w executor \<Rightarrow> 'w executor \<Rightarrow> 'w executor" where
  "and_then a b = (\<lambda>ctx w. case a ctx w of (Some e, w') \<Rightarrow> (Some e, w') | (None, w') \<Rightarrow> b ctx w')"

definition read_files :: "'a step_world_scheme job_container \<Rightarrow> go_error option \<Rightarrow> 'a step_world_scheme executor" where
  "read_files c orgerr =
     and_then (processRunnerEnvFileCommand c envFileCommand setEnv)
      (and_then (processRunnerEnvFileCommand c stateFileCommand saveState)
        (and_then (processRunnerEnvFileCommand c outputFileCommand setOutput)
          (and_then (UpdateExtraPath c (join_path GetActPath pathFileCommand))
            (\<lambda>ctx w. (orgerr, w)))))"

definition step_title :: "'a step_world_scheme job_env \<Rightarrow> 'a step_world_scheme step \<Rightarrow> 'a step_world_scheme \<Rightarrow> string" where
  "step_title E s w =
     (let stepString = Interpolate (jev E) w (step_Display (getStepModel s))
      in if str_contains stepString ''::add-mask::'' then ''add-mask command'' else stepString)"

text \<open>The enabled step, up to the executor's result and back; a refused command fails a step that did not fail itself.\<close>

definition prepare_step ::
  "'a step_world_scheme job_env \<Rightarrow> 'a step_world_scheme step \<Rightarrow> stepStage \<Rightarrow> string \<Rightarrow> ctx \<Rightarrow> 'a step_world_scheme \<Rightarrow> 'a step_world_scheme" where
  "prepare_step E s stage title ctx w =
     (let w = log_at (if stage = stepStageMain then LevelDebug else LevelInfo) False (''Run '' @ stage_String stage @ '' '' @ title) w;
          w = put_env s (\<lambda>e. maps_Copy e (file_vars (CurrentStepIndex w))) w;
          w = reset_files E ctx w;
          w = setCurrentStepEnv (getEnv s w) w
      in snd (takeUnsecureCommandError w))"

definition execute_step ::
  "'a step_world_scheme job_env \<Rightarrow> 'a step_world_scheme step \<Rightarrow> stepStage \<Rightarrow> 'a step_world_scheme executor \<Rightarrow>
   ctx \<Rightarrow> 'a step_world_scheme \<Rightarrow> string \<times> go_error option \<times> 'a step_world_scheme" where
  "execute_step E s stage executor ctx w =
     (let title = step_title E s w;
          (tctx, w) = evaluateStepTimeout E (getStepModel s) ctx (prepare_step E s stage title ctx w);
          (err, w) = executor tctx w;
          (insecureErr, w) = takeUnsecureCommandError w
      in (stage_String stage @ '' '' @ title, case err of None \<Rightarrow> insecureErr | Some e \<Rightarrow> Some e, w))"

definition run_enabled ::
  "'a step_world_scheme job_env \<Rightarrow> 'a step_world_scheme step \<Rightarrow> stepStage \<Rightarrow> 'a step_world_scheme executor \<Rightarrow>
   'a step_world_scheme executor" where
  "run_enabled E s stage executor = (\<lambda>ctx w.
     case execute_step E s stage executor ctx w of
       (title, err, w) \<Rightarrow>
         (case conclude E s stage title err w of
            (Inl parseErr, w) \<Rightarrow> (Some parseErr, setCurrentStepEnv [] w)
          | (Inr orgerr, w) \<Rightarrow>
              (case read_files (jcont E) orgerr ctx w of (r, w) \<Rightarrow> (r, setCurrentStepEnv [] w))))"

definition enter_step ::
  "'a step_world_scheme job_env \<Rightarrow> 'a step_world_scheme step \<Rightarrow> stepStage \<Rightarrow> 'a step_world_scheme \<Rightarrow> 'a step_world_scheme" where
  "enter_step E s stage w =
     (let key = step_ID (getStepModel s);
          w = w\<lparr>CurrentStep := key\<rparr>;
          w = (if stage = stepStageMain then w\<lparr>StepResults := dict_put key fresh_result (StepResults w)\<rparr> else w)
      in setupEnv E s w)"

definition runStepExecutor ::
  "'a step_world_scheme job_env \<Rightarrow> 'a step_world_scheme step \<Rightarrow> stepStage \<Rightarrow> 'a step_world_scheme executor \<Rightarrow>
   'a step_world_scheme executor" where
  "runStepExecutor E s stage executor = (\<lambda>ctx w.
     (let ifExpression = getIfExpression s stage w;
          key = step_ID (getStepModel s);
          w = enter_step E s stage w
      in case isStepEnabled E ifExpression s stage w of
           Inl err \<Rightarrow>
             (Some err, set_result stage key (\<lambda>r. r\<lparr>Conclusion := StepStatusFailure, Outcome := StepStatusFailure\<rparr>) w)
         | Inr False \<Rightarrow>
             (None, log_at LevelDebug False (''Skipping step '' @ squote (step_Display (getStepModel s)) @ '' due to '' @ squote ifExpression)
                (log_result StepStatusSkipped
                  (set_result stage key (\<lambda>r. r\<lparr>Conclusion := StepStatusSkipped, Outcome := StepStatusSkipped\<rparr>) w)))
         | Inr True \<Rightarrow> run_enabled E s stage executor ctx w))"

section \<open>Errors of steps\<close>

text \<open>\<^verbatim>\<open>reportStepError\<close> of \<^verbatim>\<open>act/runner/job_executor.go\<close>: a cancellation is an interruption, not a failure.\<close>

definition reportStepError :: "ctx \<Rightarrow> go_error \<Rightarrow> 'a run_context_scheme \<Rightarrow> 'a run_context_scheme" where
  "reportStepError ctx err w =
     (if errors_is err Canceled then markInterrupted (ctx_Err ctx w) w
      else markFailed (SetJobError ctx (Some err)
        (log_at LevelError False (''##[error]'' @ EscapeCommandData (error_string err)) w)))"

section \<open>Hooks around a job\<close>

definition hookEnvFileCommand :: string where "hookEnvFileCommand = ''workflow/hook-envs.txt''"
definition hookPathFileCommand :: string where "hookPathFileCommand = ''workflow/hook-path.txt''"

text \<open>\<^verbatim>\<open>path.Ext\<close>: from the last dot of the last element on.\<close>

fun path_Ext_rev :: "string \<Rightarrow> string \<Rightarrow> string" where
  "path_Ext_rev acc [] = []"
| "path_Ext_rev acc (c # s) =
     (if c = CHR ''/'' then [] else if c = CHR ''.'' then CHR ''.'' # acc else path_Ext_rev (c # acc) s)"

definition path_Ext :: "string \<Rightarrow> string" where
  "path_Ext p = path_Ext_rev [] (rev p)"

definition hookCommand :: "string \<Rightarrow> string list \<times> string" where
  "hookCommand hookPath =
     (let ext = to_lower (path_Ext hookPath)
      in if ext = ''.sh'' then ([''bash'', ''-e'', hookPath], ''bash -e {0}'')
         else if ext = ''.ps1'' then ([''pwsh'', ''-command'', ''. '' @ squote hookPath], ''pwsh -command '' @ gq (''. '' @ squote ''{0}''))
         else ([hookPath], []))"

definition setupHookFileCommands ::
  "'w job_container \<Rightarrow> ctx \<Rightarrow> env \<Rightarrow> 'w \<Rightarrow> env \<times> go_error option \<times> 'w" where
  "setupHookFileCommands c ctx e w =
     (let e = maps_Copy e
            [(''GITHUB_ENV'', join_path GetActPath hookEnvFileCommand), (''GITHUB_PATH'', join_path GetActPath hookPathFileCommand),
             (''GITEA_ENV'', join_path GetActPath hookEnvFileCommand), (''GITEA_PATH'', join_path GetActPath hookPathFileCommand)]
      in (e, Copy c GetActPath [(hookEnvFileCommand, []), (hookPathFileCommand, [])] ctx w))"

definition processHookFileCommands :: "'a step_world_scheme job_container \<Rightarrow> 'a step_world_scheme executor" where
  "processHookFileCommands c =
     and_then (processRunnerEnvFileCommand c hookEnvFileCommand setEnv)
       (UpdateExtraPath c (join_path GetActPath hookPathFileCommand))"

definition hook_env ::
  "'a step_world_scheme job_env \<Rightarrow> github_context \<Rightarrow> ctx \<Rightarrow> 'a step_world_scheme \<Rightarrow> env \<times> 'a step_world_scheme" where
  "hook_env E github ctx w =
     (let w = w\<lparr>Env := GetEnv (jcfg E) (Env w)\<rparr>;
          e = (case rcContainerEnv (jcfg E) of None \<Rightarrow> Env w | Some c \<Rightarrow> maps_Copy (Env w) c)
      in ApplyExtraPath (jcont E) ctx (withGithubEnv (josenv E) (jcfg E) github e) w)"

definition hook_header :: "string \<Rightarrow> string \<Rightarrow> string \<Rightarrow> 'a run_context_scheme \<Rightarrow> 'a run_context_scheme" where
  "hook_header hookPath name shell w =
     (let w = log_at LevelInfo True (''::group::Run '' @ squote (EscapeCommandData hookPath)) w;
          w = log_at LevelInfo True (''A '' @ name @ '' hook has been configured by the runner administrator'') w
      in if shell \<noteq> [] then log_at LevelInfo True (''shell: '' @ shell) w else w)"

definition runJobHook ::
  "'a step_world_scheme job_env \<Rightarrow> github_context \<Rightarrow> string \<Rightarrow> string \<Rightarrow> 'a step_world_scheme executor" where
  "runJobHook E github hookPath name = (\<lambda>ctx w.
     if hookPath = [] then (None, w)
     else
       (let (cmd, shell) = hookCommand hookPath;
            w = hook_header hookPath name shell w;
            (e, w) = hook_env E github ctx w;
            (e, err, w) = setupHookFileCommands (jcont E) ctx e w;
            (err, w) = (case err of Some x \<Rightarrow> (Some x, w) | None \<Rightarrow> ExecIn (jcont E) cmd e ctx w);
            (perr, w) = processHookFileCommands (jcont E) ctx w
        in case (case err of Some x \<Rightarrow> Some x | None \<Rightarrow> perr) of
             None \<Rightarrow> (None, log_at LevelInfo True ''::endgroup::'' w)
           | Some x \<Rightarrow>
               (let x = Wrap (''the '' @ name @ '' hook '' @ gq hookPath @ '' failed'') x
                in (Some x, log_at LevelInfo True ''::endgroup::'' (reportStepError ctx x w)))))"

definition first_set :: "string \<Rightarrow> string \<Rightarrow> string" where
  "first_set a b = (if a \<noteq> [] then a else b)"

definition runJobStartedHook :: "'a step_world_scheme job_env \<Rightarrow> github_context \<Rightarrow> 'a step_world_scheme executor" where
  "runJobStartedHook E github =
     runJobHook E github (first_set (fst (jhooks E)) (dict_get (rcConfigEnv (jcfg E)) ''ACTIONS_RUNNER_HOOK_JOB_STARTED'')) ''job started''"

definition runJobCompletedHook :: "'a step_world_scheme job_env \<Rightarrow> github_context \<Rightarrow> 'a step_world_scheme executor" where
  "runJobCompletedHook E github =
     runJobHook E github (first_set (snd (jhooks E)) (dict_get (rcConfigEnv (jcfg E)) ''ACTIONS_RUNNER_HOOK_JOB_COMPLETED'')) ''job completed''"

section \<open>Facts about environments\<close>

lemma getEnv_put_env [simp]: "getEnv s (put_env s f w) = f (getEnv s w)"
  by (simp add: put_env_def getEnv_def)

lemma put_env_run [simp]:
  "Env (put_env s f w) = Env w" "caseInsensitive (put_env s f w) = caseInsensitive w"
  "StepResults (put_env s f w) = StepResults w" "CurrentStep (put_env s f w) = CurrentStep w"
  "jobFailed (put_env s f w) = jobFailed w" "jobCancelled (put_env s f w) = jobCancelled w"
  by (simp_all add: put_env_def)

lemma interp_vars_fold:
  "dict_wf e' \<Longrightarrow> map_of (fold (\<lambda>(k, v) acc. if p k then dict_put k (f v) acc else acc) e' acc) k =
   (case map_of e' k of Some v \<Rightarrow> if p k then Some (f v) else map_of acc k | None \<Rightarrow> map_of acc k)"
proof (induction e' arbitrary: acc)
  case (Cons kv e')
  obtain j v where kv: "kv = (j, v)" by fastforce
  let ?acc = "if p j then dict_put j (f v) acc else acc"
  have "map_of (fold (\<lambda>(k, v) acc. if p k then dict_put k (f v) acc else acc) e' ?acc) k =
    (case map_of e' k of Some v \<Rightarrow> if p k then Some (f v) else map_of ?acc k | None \<Rightarrow> map_of ?acc k)"
    using Cons.prems kv by (intro Cons.IH) (auto simp: dict_wf_def)
  moreover have "map_of e' j = None"
    using Cons.prems kv by (auto simp: dict_wf_def map_of_eq_None_iff)
  ultimately show ?case
    by (auto simp: kv update_conv' split: option.splits)
qed simp

lemma interp_vars_const:
  assumes "dict_wf e"
  shows "map_of (interp_vars (\<lambda>_. f) p e) k = map_option (\<lambda>v. if p k then f v else v) (map_of e k)"
  using interp_vars_fold [OF assms, of p f e k] by (auto simp: interp_vars_def split: option.split)

lemma dict_wf_withGithubEnv: "dict_wf e \<Longrightarrow> dict_wf (withGithubEnv oe c github e)"
  by (simp add: withGithubEnv_def Let_def setActionRuntimeVars_def split: prod.split)

lemma dict_wf_merge: "dict_wf e \<Longrightarrow> dict_wf (mergeIntoMapCaseSensitive e ms)"
  by (induction ms arbitrary: e) (auto simp: mergeIntoMapCaseSensitive_def)

text \<open>Entering a step touches its environment and its result, nothing a job's status depends on.\<close>

lemma enter_step_frame [simp, frame_simps]:
  "jobFailed (enter_step E s stage w) = jobFailed w" "jobCancelled (enter_step E s stage w) = jobCancelled w"
  "StepResults (enter_step E s stage w) =
    (if stage = stepStageMain then dict_put (step_ID (getStepModel s)) fresh_result (StepResults w) else StepResults w)"
  by (simp_all add: enter_step_def setupEnv_def mergeEnv_def Let_def)

lemma set_result_frame [simp, frame_simps]:
  "jobFailed (set_result stage key f w) = jobFailed w" "jobCancelled (set_result stage key f w) = jobCancelled w"
  "StepResults (set_result stepStageMain key f w) = dict_put key
        (f (case map_of (StepResults w) key of None \<Rightarrow> fresh_result | Some r \<Rightarrow> r)) (StepResults w)"
  by (simp_all add: set_result_def)

lemma log_result_frame [simp, frame_simps]:
  "StepResults (log_result r w) = StepResults w" "jobFailed (log_result r w) = jobFailed w"
  "jobCancelled (log_result r w) = jobCancelled w"
  by (simp_all add: log_result_def)

lemma interp_vars_other: "\<not> p k \<Longrightarrow> map_of (interp_vars interp p e) k = map_of e k"
proof -
  assume "\<not> p k"
  then have "map_of (fold (\<lambda>(k, v) acc. if p k then dict_put k (interp acc v) acc else acc) e' acc) k = map_of acc k" for e' acc
    by (induction e' arbitrary: acc) (auto simp: update_conv')
  then show ?thesis by (simp add: interp_vars_def)
qed

section \<open>What later writes keep of a result\<close>

definition verdicts_kept :: "'a step_world_scheme \<Rightarrow> 'a step_world_scheme \<Rightarrow> bool" where
  "verdicts_kept w w' =
     (\<forall>key r. map_of (StepResults w) key = Some r \<longrightarrow>
       (\<exists>r'. map_of (StepResults w') key = Some r' \<and> Outcome r' = Outcome r \<and> Conclusion r' = Conclusion r))"

interpretation vk: exec_rel verdicts_kept
proof (unfold_locales, goal_cases)
  case (1 w) show ?case by (simp add: verdicts_kept_def)
next
  case (2 w1 w2 w3) then show ?case unfolding verdicts_kept_def by metis
qed

lemma kept_same: "StepResults w' = StepResults w \<Longrightarrow> verdicts_kept w w'"
  by (simp add: verdicts_kept_def)

lemma kept_setEnv: "verdicts_kept w (setEnv kv v w)"
  by (rule kept_same) (simp add: setEnv_def Let_def)

lemma kept_saveState: "verdicts_kept w (saveState kv v w)"
  by (rule kept_same) (simp add: saveState_def Let_def)

lemma kept_addPath: "verdicts_kept w (addPath v w)"
  by (rule kept_same) (simp add: addPath_def)

lemma kept_setOutput: "verdicts_kept w (setOutput kv v w)"
proof -
  have "verdicts_kept w ((Infof m w)\<lparr>StepResults := dict_put i (r\<lparr>Outputs := u\<rparr>) (StepResults w)\<rparr>)"
    if "map_of (StepResults w) i = Some r" for i r u m
    using that by (auto simp: verdicts_kept_def update_conv')
  then show ?thesis
    by (auto simp: setOutput_def Let_def kept_same split: option.splits prod.splits)
qed

lemma kept_fold: "(\<And>x w. verdicts_kept w (f x w)) \<Longrightarrow> verdicts_kept w (fold f xs w)"
  by (induction xs arbitrary: w) (auto simp: vk.R_refl intro: vk.R_trans)

text \<open>A backend that only reads when it is asked for a file.\<close>

definition reads_only :: "'a step_world_scheme job_container \<Rightarrow> bool" where
  "reads_only c = (\<forall>path ctx w. StepResults (snd (GetContainerArchive c path ctx w)) = StepResults w)"

lemma kept_file_command:
  assumes "reads_only c" and "\<And>kv v w. verdicts_kept w (setter kv v w)"
  shows "verdicts_kept w (snd (processRunnerEnvFileCommand c f setter ctx w))"
proof -
  obtain a w1 where g: "GetContainerArchive c (join_path GetActPath f) ctx w = (a, w1)" by fastforce
  have 1: "verdicts_kept w w1"
    using assms(1) g by (intro kept_same) (metis reads_only_def snd_conv)
  have 2: "verdicts_kept w1 (fold (\<lambda>(k, v). setter [(''name'', k)] v) kvs w1)" for kvs
    by (rule kept_fold) (auto simp: assms(2))
  show ?thesis
    using 1 vk.R_trans [OF 1 2]
    by (auto simp: processRunnerEnvFileCommand_def UpdateFromEnv_def g split: prod.split option.split)
qed

lemma kept_extra_path:
  assumes "reads_only c"
  shows "verdicts_kept w (snd (UpdateExtraPath c path ctx w))"
proof -
  obtain a w1 where g: "GetContainerArchive c path ctx w = (a, w1)" by fastforce
  have 1: "verdicts_kept w w1"
    using assms(1) g by (intro kept_same) (metis reads_only_def snd_conv)
  have 2: "verdicts_kept w1 (fold (\<lambda>line w. if line \<noteq> [] then addPath line w else w) ls w1)" for ls
    by (rule kept_fold) (simp add: kept_addPath vk.R_refl)
  show ?thesis
    using 1 vk.R_trans [OF 1 2]
    by (auto simp: UpdateExtraPath_def g split: sum.split archive.split)
qed

lemma and_then_kept:
  assumes "\<And>w. verdicts_kept w (snd (a ctx w))" and "\<And>w. verdicts_kept w (snd (b ctx w))"
  shows "verdicts_kept w (snd (and_then a b ctx w))"
proof -
  obtain e w1 where a: "a ctx w = (e, w1)" by fastforce
  with assms(1) [of w] have "verdicts_kept w w1" by simp
  with a assms(2) [of w1] show ?thesis
    by (cases e) (auto simp: and_then_def intro: vk.R_trans)
qed

lemma read_files_kept: "reads_only c \<Longrightarrow> verdicts_kept w (snd (read_files c orgerr ctx w))"
  unfolding read_files_def
  by (intro and_then_kept kept_file_command kept_setEnv kept_saveState kept_setOutput kept_extra_path)
    (simp_all add: vk.R_refl)

lemma and_then_fails: "(\<And>w. fst (b ctx w) \<noteq> None) \<Longrightarrow> fst (and_then a b ctx w) \<noteq> None"
  by (auto simp: and_then_def split: prod.split option.split)

lemma read_files_error: "orgerr \<noteq> None \<Longrightarrow> fst (read_files c orgerr ctx w) \<noteq> None"
  unfolding read_files_def by (intro and_then_fails) simp

section \<open>Properties\<close>

text \<open>
  C5: the main stage records what happened. A step that ran and did not fail has succeeded; a failed one has
  the outcome failure, and the conclusion success exactly when its \<^verbatim>\<open>continue-on-error\<close> evaluates to
  true; a failure without it is returned as an error, whatever the files the step wrote hold.
\<close>

theorem step_verdict:
  assumes enabled: "isStepEnabled E (getIfExpression s stepStageMain w) s stepStageMain (enter_step E s stepStageMain w) = Inr True"
    and executed: "execute_step E s stepStageMain executor ctx (enter_step E s stepStageMain w) = (title, err, w1)"
    and own: "map_of (StepResults w1) (step_ID (getStepModel s)) = Some r" "Outcome r = StepStatusSuccess" "Conclusion r = StepStatusSuccess"
    and backend: "reads_only (jcont E)"
    and cont: "b = (case err of None \<Rightarrow> Inr True
      | Some e \<Rightarrow> isContinueOnError E (RawContinueOnError (getStepModel s)) s
          (set_result stepStageMain (step_ID (getStepModel s)) (\<lambda>r. r\<lparr>Outcome := StepStatusFailure\<rparr>) w1))"
  shows "\<exists>r'. map_of (StepResults (snd (runStepExecutor E s stepStageMain executor ctx w))) (step_ID (getStepModel s)) = Some r' \<and>
    Outcome r' = (if err = None then StepStatusSuccess else StepStatusFailure) \<and>
    Conclusion r' = (if b = Inr True then StepStatusSuccess else StepStatusFailure) \<and>
    (b \<noteq> Inr True \<longrightarrow> fst (runStepExecutor E s stepStageMain executor ctx w) \<noteq> None)"
proof -
  let ?key = "step_ID (getStepModel s)"
  obtain o1 w2 where c: "conclude E s stepStageMain title err w1 = (o1, w2)" by fastforce
  have verdict: "\<exists>r2. map_of (StepResults w2) ?key = Some r2 \<and>
      Outcome r2 = (if err = None then StepStatusSuccess else StepStatusFailure) \<and>
      Conclusion r2 = (if b = Inr True then StepStatusSuccess else StepStatusFailure)"
    using c own cont
    by (auto simp: conclude_def Let_def update_conv' split: option.splits sum.splits bool.splits)
  have fails: "b \<noteq> Inr True \<Longrightarrow> o1 \<noteq> Inr None"
    using c cont by (auto simp: conclude_def Let_def split: option.splits sum.splits bool.splits)
  have run: "runStepExecutor E s stepStageMain executor ctx w =
    (case o1 of Inl parseErr \<Rightarrow> (Some parseErr, setCurrentStepEnv [] w2)
      | Inr orgerr \<Rightarrow> (case read_files (jcont E) orgerr ctx w2 of (r, w) \<Rightarrow> (r, setCurrentStepEnv [] w)))"
    by (simp add: runStepExecutor_def Let_def enabled run_enabled_def executed c)
  have keep: "verdicts_kept w2 (snd (read_files (jcont E) orgerr ctx w2))" for orgerr
    by (rule read_files_kept [OF backend])
  have kept: "verdicts_kept w2 (snd (runStepExecutor E s stepStageMain executor ctx w))"
  proof (cases o1)
    case (Inl e)
    then show ?thesis unfolding run by (simp add: kept_same setCurrentStepEnv_def)
  next
    case (Inr orgerr)
    have "verdicts_kept (snd (read_files (jcont E) orgerr ctx w2)) (setCurrentStepEnv [] (snd (read_files (jcont E) orgerr ctx w2)))"
      by (rule kept_same) (simp add: setCurrentStepEnv_def)
    from vk.R_trans [OF keep this] Inr show ?thesis unfolding run by (simp add: split_beta)
  qed
  have "\<exists>r'. map_of (StepResults (snd (runStepExecutor E s stepStageMain executor ctx w))) ?key = Some r' \<and>
      Outcome r' = (if err = None then StepStatusSuccess else StepStatusFailure) \<and>
      Conclusion r' = (if b = Inr True then StepStatusSuccess else StepStatusFailure)"
    using verdict kept unfolding verdicts_kept_def by metis
  moreover have "b \<noteq> Inr True \<Longrightarrow> fst (runStepExecutor E s stepStageMain executor ctx w) \<noteq> None"
    using fails read_files_error [of _ "jcont E" ctx w2] unfolding run
    by (cases o1) (simp_all add: split_beta)
  ultimately show ?thesis by blast
qed

definition demo_world :: step_world where
  "demo_world = \<lparr>fired = [], next_source = 0, error_cells = Map.empty, next_cell = 0, Env = [],
     GlobalEnv = [], ExtraPath = [], CurrentStep = [], CurrentStepIndex = 0, StepResults = [],
     IntraActionState = [], OutputMappings = [], Masks = [], summaryFileInitialized = [],
     jobCancelled = False, jobFailed = False, stepEnv = [], unsecureCommandErr = None,
     caseInsensitive = False, Logs = [], stepEnvs = (\<lambda>_. []), loggedResults = []\<rparr>"

definition demo_github :: github_context where
  "demo_github = getGithubContext id demo_config ''a'' ''push'' True [] ''s''"

definition demo_container :: "step_world job_container" where
  "demo_container = \<lparr>Copy = (\<lambda>d fs ctx w. (None, w)), ExecIn = (\<lambda>c e ctx w. (None, w)),
     GetContainerArchive = (\<lambda>p ctx w. (Inr EmptyTar, w)), UpdateFromImage = (\<lambda>ctx w. (None, w)),
     PathVariableName = ''PATH'', DefaultPathVariable = ''/bin'', JoinPathVariable = join '':'', decodeByBOM = id\<rparr>"

text \<open>An evaluator that knows the status checks and the literals.\<close>

definition demo_evaluator :: "step_world evaluator" where
  "demo_evaluator = \<lparr>Interpolate = (\<lambda>w t. t), InterpolateEnv = (\<lambda>e w t. t),
     EvalBool = (\<lambda>e w t d. Inr (if t = [] then d = DefaultStatusCheckAlways \<or> job_status w = ''success'' else t = ''true''))\<rparr>"

definition demo_env :: "step_world job_env" where
  "demo_env = \<lparr>jcfg = demo_config, josenv = (\<lambda>_. []), jcont = demo_container, jev = demo_evaluator, jhooks = ([], [])\<rparr>"

definition demo_step :: "string \<Rightarrow> step_world step" where
  "demo_step coe = \<lparr>object = 0, getStepModel = \<lparr>step_ID = ''s'', step_Number = 0, step_Display = ''d'', step_Env = [],
     RawContinueOnError = coe, TimeoutMinutes = []\<rparr>, getIfExpression = (\<lambda>st w. []), step_github = (\<lambda>w. demo_github)\<rparr>"

definition demo_fail :: "step_world executor" where
  "demo_fail = (\<lambda>ctx w. (Some (Errorf ''exit 1''), w))"

lemma demo_simps [simp]:
  "jcfg demo_env = demo_config" "jcont demo_env = demo_container" "jev demo_env = demo_evaluator"
  "StepResults demo_world = []" "Interpolate demo_evaluator w t = t"
  "EvalBool demo_evaluator e w t d = Inr (if t = [] then d = DefaultStatusCheckAlways \<or> job_status w = ''success'' else t = ''true'')"
  "step_ID (getStepModel (demo_step coe)) = ''s''" "RawContinueOnError (getStepModel (demo_step coe)) = coe"
  "TimeoutMinutes (getStepModel (demo_step coe)) = []" "getIfExpression (demo_step coe) stage w = []"
  "Copy demo_container dir fs ctx w = (None, w)" "GetContainerArchive demo_container p ctx w = (Inr EmptyTar, w)"
  by (simp_all add: demo_world_def demo_env_def demo_evaluator_def demo_step_def demo_container_def)

lemma demo_enter [simp]:
  "StepResults (enter_step demo_env (demo_step coe) stepStageMain demo_world) = [(''s'', fresh_result)]"
  "job_status (enter_step demo_env (demo_step coe) stepStageMain demo_world) = ''success''"
  by (simp_all add: demo_world_def job_status_def fresh_result_def)

lemma demo_prepare [simp]:
  "StepResults (prepare_step demo_env s stage title ctx w) = StepResults w"
  "unsecureCommandErr (prepare_step demo_env s stage title ctx w) = None"
  by (simp_all add: prepare_step_def Let_def takeUnsecureCommandError_def setCurrentStepEnv_def reset_files_def)

lemma demo_true: "trim_space ''true'' \<noteq> []"
  using trim_space_keeps [of "CHR ''t''" "''true''"] by (auto simp: go_spaces_def)

theorem step_verdict_witness:
  "\<exists>r'. map_of (StepResults (snd (runStepExecutor demo_env (demo_step ''true'') stepStageMain demo_fail Background demo_world))) ''s'' = Some r' \<and>
     Outcome r' = StepStatusFailure \<and> Conclusion r' = StepStatusSuccess"
proof -
  let ?s = "demo_step ''true''"
  let ?w = "enter_step demo_env ?s stepStageMain demo_world"
  obtain title err w1 where x: "execute_step demo_env ?s stepStageMain demo_fail Background ?w = (title, err, w1)"
    by (metis prod_cases3)
  have e: "err = Some (Errorf ''exit 1'')" and r: "StepResults w1 = [(''s'', fresh_result)]"
    using x by (auto simp: execute_step_def Let_def demo_fail_def takeUnsecureCommandError_def
        evaluateStepTimeout_def minutes_timeout_def)
  have en: "isStepEnabled demo_env (getIfExpression ?s stepStageMain demo_world) ?s stepStageMain ?w = Inr True"
    by (simp add: isStepEnabled_def)
  have c: "isContinueOnError demo_env ''true'' ?s w2 = Inr True" for w2
    by (simp add: isContinueOnError_def demo_true)
  show ?thesis
    using step_verdict [OF en x _ _ _ _ refl, of fresh_result] e r c
    by (auto simp: reads_only_def fresh_result_def)
qed

text \<open>
  C25: once the job has failed or was cancelled, a step without a condition of its own is skipped: its executor
  is never run, it reports no error, and its result is skipped. The evaluator is only asked what an empty
  condition means: that the job is still successful.
\<close>

theorem default_step_skipped:
  assumes status: "jobFailed w \<or> jobCancelled w"
    and default: "getIfExpression s stepStageMain w = []"
    and empty: "\<And>e w'. EvalBool (jev E) e w' [] DefaultStatusCheckSuccess = Inr (job_status w' = ''success'')"
  shows "(fst (runStepExecutor E s stepStageMain executor ctx w),
     map_of (StepResults (snd (runStepExecutor E s stepStageMain executor ctx w))) (step_ID (getStepModel s))) =
     (None, Some \<lparr>Outcome = StepStatusSkipped, Conclusion = StepStatusSkipped, Outputs = []\<rparr>)"
proof -
  have "job_status (enter_step E s stepStageMain w) \<noteq> ''success''"
    using status by (auto simp: job_status_def Let_def)
  then have "isStepEnabled E [] s stepStageMain (enter_step E s stepStageMain w) = Inr False"
    by (simp add: isStepEnabled_def empty)
  then show ?thesis
    by (simp add: runStepExecutor_def default Let_def fresh_result_def update_conv')
qed

theorem default_step_skipped_witness:
  "fst (runStepExecutor demo_env (demo_step []) stepStageMain demo_fail Background (demo_world\<lparr>jobFailed := True\<rparr>)) = None"
  using default_step_skipped [of "demo_world\<lparr>jobFailed := True\<rparr>" "demo_step []" demo_env demo_fail Background] by simp



end
