(* ===== verification/JobExecutor.thy ===== *)
theory JobExecutor
  imports StepExec
begin

text \<open>
  The job executor, \<^verbatim>\<open>act/runner/job_executor.go\<close>: a job's executors in order, its pre steps, main
  steps and post steps, what an interruption does to each of them, the teardown of the container and the
  result that is recorded. Steps are given by the executors of their three stages; what they do to the
  world is left open.
\<close>

section \<open>A job's world and its parts\<close>

text \<open>
  \<open>jobResult\<close> and \<open>jobContinueOnError\<close> are those of the model of the job, which the combinations of a
  matrix share; \<open>reusedResults\<close> and \<open>callerOutputs\<close> belong to the job that called a reusable workflow;
  \<open>logWriter\<close> is whose output the container's log is.
\<close>

record job_world = step_world +
  jobResult :: string
  jobContinueOnError :: bool
  jobResultLog :: "string list"
  reusedResults :: "string dict"
  callerOutputs :: env
  logWriter :: "(nat \<times> stepStage) option"

record 'w step_stages =
  pre :: "'w executor"
  main :: "'w executor"
  post :: "'w executor"
  preparer :: "('w executor \<times> ('w \<Rightarrow> (string \<times> string) option)) option"

record 'w job_info =
  matrix :: "(string \<times> string) list"
  infoSteps :: "step_model option list"
  startContainer :: "'w executor"
  stopContainer :: "'w executor"
  closeContainer :: "'w executor"
  interpolateOutputs :: "'w executor"
  uploadSummary :: "ctx \<Rightarrow> 'w \<Rightarrow> 'w"
  newStep :: "step_model \<Rightarrow> go_error + 'w step_stages"
  AutoRemove :: bool
  hookContext :: github_context
  RawJobContinueOnError :: string
  jobTimeoutMinutes :: string
  callOutputs :: env

text \<open>A step of the job as the executor goes through it: its number, its model and its stages.\<close>

type_synonym 'w job_step = "nat \<times> step_model \<times> 'w step_stages"

definition rawf :: "string \<Rightarrow> 'a run_context_scheme \<Rightarrow> 'a run_context_scheme" where
  "rawf msg w = log_at LevelInfo True msg w"

section \<open>The setup section\<close>

text \<open>The job's own variables, resolved one by one.\<close>

definition resolve_env :: "'a job_world_scheme job_env \<Rightarrow> 'a job_world_scheme executor" where
  "resolve_env E = (\<lambda>ctx w.
     (let e = GetEnv (jcfg E) (Env w)
      in (None, w\<lparr>Env := interp_vars (\<lambda>acc. Interpolate (jev E) (w\<lparr>Env := acc\<rparr>)) (\<lambda>k. True) e\<rparr>)))"

fun prepare_each ::
  "('a job_world_scheme executor \<times> ('a job_world_scheme \<Rightarrow> (string \<times> string) option)) list \<Rightarrow> 'a job_world_scheme executor" where
  "prepare_each [] = (\<lambda>ctx w. (None, w))"
| "prepare_each ((prepareActionExecutor, actionDownloadInfo) # ps) = (\<lambda>ctx w.
     case prepareActionExecutor ctx w of
       (Some err, w') \<Rightarrow> (Some err, reportStepError ctx err w')
     | (None, w') \<Rightarrow>
         prepare_each ps ctx
           (case actionDownloadInfo w' of
              None \<Rightarrow> w'
            | Some (reference, sha) \<Rightarrow>
                rawf (''Download action repository '' @ squote reference @ (if sha = [] then [] else '' (SHA:'' @ sha @ '')'')) w'))"

definition printPrepareActions ::
  "('a job_world_scheme executor \<times> ('a job_world_scheme \<Rightarrow> (string \<times> string) option)) list \<Rightarrow> 'a job_world_scheme executor" where
  "printPrepareActions preparers = (\<lambda>ctx w.
     if preparers = [] then (None, w)
     else prepare_each preparers ctx (rawf ''Prepare all required actions'' w))"

definition printCompleteJobName :: "run_config \<Rightarrow> 'a job_world_scheme executor" where
  "printCompleteJobName cfg = (\<lambda>ctx w.
     (None, rawf (''Complete job name: '' @ or_default (or_default (rcJobName cfg) (rcName cfg)) (rcJobID cfg)) w))"

section \<open>The stages of a step\<close>

text \<open>
  While a stage runs the container writes to the step's logger; what was there before is put back behind
  it, whatever the stage returned.
\<close>

definition useStepLogger :: "nat \<Rightarrow> stepStage \<Rightarrow> 'a job_world_scheme executor \<Rightarrow> 'a job_world_scheme executor" where
  "useStepLogger number stage executor = (\<lambda>ctx w.
     case executor ctx (w\<lparr>logWriter := Some (number, stage)\<rparr>) of
       (err, w') \<Rightarrow> (err, w'\<lparr>logWriter := logWriter w\<rparr>))"

definition report :: "ctx \<Rightarrow> go_error option \<Rightarrow> 'a run_context_scheme \<Rightarrow> 'a run_context_scheme" where
  "report ctx err w =
     (case err of
        Some e \<Rightarrow> reportStepError ctx e w
      | None \<Rightarrow> (case ctx_Err ctx w of Some e \<Rightarrow> reportStepError ctx e w | None \<Rightarrow> w))"

definition at_step :: "nat \<Rightarrow> 'a job_world_scheme executor \<Rightarrow> 'a job_world_scheme executor" where
  "at_step stepIdx executor = (\<lambda>ctx w.
     case executor ctx (w\<lparr>CurrentStepIndex := stepIdx\<rparr>) of (err, w') \<Rightarrow> (err, report ctx err w'))"

definition pre_exec :: "'a job_world_scheme job_step \<Rightarrow> 'a job_world_scheme executor" where
  "pre_exec st = (case st of (i, m, s) \<Rightarrow> useStepLogger i stepStagePre (at_step i (pre s)))"

definition main_exec :: "'a job_world_scheme job_step \<Rightarrow> 'a job_world_scheme executor" where
  "main_exec st = (case st of (i, m, s) \<Rightarrow>
     useStepLogger i stepStageMain (\<lambda>ctx w. (None, snd (at_step i (main s) ctx w))))"

definition post_exec :: "'a job_world_scheme job_step \<Rightarrow> 'a job_world_scheme executor" where
  "post_exec st = (case st of (i, m, s) \<Rightarrow> useStepLogger i stepStagePost (at_step i (post s)))"

definition matrix_info :: "'w job_info \<Rightarrow> 'a run_context_scheme executor" where
  "matrix_info info = (\<lambda>ctx w.
     (None, if matrix info \<noteq> [] then 
       Infof (''Matrix: map['' @ join '' '' (map (\<lambda>(k, v). k @ '':'' @ v) (sort_key fst (matrix info))) @ '']'') w else w))"

text \<open>The post steps, the last step's first: each is what the ones before it wait for.\<close>

definition post_chain :: "'a job_world_scheme job_step list \<Rightarrow> 'a job_world_scheme executor option" where
  "post_chain sts =
     fold (\<lambda>st acc. case acc of None \<Rightarrow> Some (post_exec st) | Some p \<Rightarrow> Some (Finally (post_exec st) p)) sts None"

section \<open>The main steps\<close>

definition grace :: int where "grace = 5 * minute"

fun run_all :: "'w executor list \<Rightarrow> ctx \<Rightarrow> 'w \<Rightarrow> 'w" where
  "run_all [] ctx w = w"
| "run_all (step # steps) ctx w = run_all steps ctx (snd (step ctx w))"

definition runMainStepsAfterInterrupt :: "'a job_world_scheme executor list \<Rightarrow> 'a job_world_scheme executor" where
  "runMainStepsAfterInterrupt steps = (\<lambda>ctx w.
     (let interruptErr = ctx_Err ctx w;
          w = markInterrupted interruptErr w;
          (freshCtx, w) = WithTimeout (WithoutCancel ctx) grace w
      in (interruptErr, run_all steps freshCtx w)))"

fun newMainStepsExecutor :: "'a job_world_scheme executor list \<Rightarrow> 'a job_world_scheme executor" where
  "newMainStepsExecutor [] = (\<lambda>ctx w. (None, markInterrupted (ctx_Err ctx w) w))"
| "newMainStepsExecutor (step # steps) = (\<lambda>ctx w.
     if ctx_Err ctx w \<noteq> None then runMainStepsAfterInterrupt (step # steps) ctx w
     else newMainStepsExecutor steps ctx (snd (step ctx w)))"

definition newStepsExecutor ::
  "'a job_world_scheme executor list \<Rightarrow> 'a job_world_scheme executor list \<Rightarrow> 'a job_world_scheme executor" where
  "newStepsExecutor preSteps steps = (\<lambda>ctx w.
     case NewPipelineExecutor preSteps ctx w of
       (preErr, w1) \<Rightarrow>
         (case newMainStepsExecutor steps ctx w1 of
            (mainErr, w2) \<Rightarrow> (case preErr of Some e \<Rightarrow> Some e | None \<Rightarrow> mainErr, w2)))"

section \<open>The end of a job\<close>

definition postStepsContext :: "ctx \<Rightarrow> 'a go_world_scheme \<Rightarrow> ctx \<times> 'a go_world_scheme" where
  "postStepsContext ctx w =
     (case ctx_Err ctx w of
        Some Canceled \<Rightarrow>
          (case WithJobErrorContainer Background w of (c, w) \<Rightarrow> WithTimeout c grace w)
      | Some DeadlineExceeded \<Rightarrow> WithTimeout (WithoutCancel ctx) grace w
      | _ \<Rightarrow> (ctx, w))"

definition evaluateJobContinueOnError ::
  "'a job_world_scheme job_env \<Rightarrow> string \<Rightarrow> 'a job_world_scheme \<Rightarrow> bool \<times> 'a job_world_scheme" where
  "evaluateJobContinueOnError E rawExpr w =
     (let expr = trim_space rawExpr
      in if expr = [] then (False, w)
         else (let w = w\<lparr>Env := GetEnv (jcfg E) (Env w)\<rparr>
               in case EvalBool (jev E) (Env w) w expr DefaultStatusCheckNone of
                    Inl err \<Rightarrow> (False, log_at LevelWarning False
                      (''continue-on-error expression '' @ gq expr @ '' evaluation failed: '' @ error_string err) w)
                  | Inr b \<Rightarrow> (b, w)))"

definition setJobResult ::
  "'a job_world_scheme job_env \<Rightarrow> 'a job_world_scheme job_info \<Rightarrow> bool \<Rightarrow> 'a job_world_scheme \<Rightarrow> 'a job_world_scheme" where
  "setJobResult E info success w =
     (let (continueOnError, w) = (if success then (False, w) else evaluateJobContinueOnError E (RawJobContinueOnError info) w);
          result = (if matrix info \<noteq> [] \<and> jobResult w \<noteq> [] then jobResult w else ''success'');
          w = (if success then w else w\<lparr>jobContinueOnError := continueOnError\<rparr>);
          result = (if success then result else ''failure'');
          w = w\<lparr>jobResult := result\<rparr>
      in case rcCaller (jcfg E) of
           Some _ \<Rightarrow> w\<lparr>reusedResults := dict_put (rcJobName (jcfg E)) result (reusedResults w)\<rparr>
         | None \<Rightarrow>
             Infof (''Job '' @ (if result \<noteq> ''success'' then ''failed'' else ''succeeded''))
               (w\<lparr>jobResultLog := jobResultLog w @ [result]\<rparr>))"

definition setJobOutputs ::
  "'a job_world_scheme job_env \<Rightarrow> 'a job_world_scheme job_info \<Rightarrow> 'a job_world_scheme \<Rightarrow> 'a job_world_scheme" where
  "setJobOutputs E info w =
     (case rcCaller (jcfg E) of
        None \<Rightarrow> w
      | Some _ \<Rightarrow>
          (let w = w\<lparr>Env := GetEnv (jcfg E) (Env w)\<rparr>; interp = Interpolate (jev E) w
           in w\<lparr>callerOutputs := fold (\<lambda>(k, v). dict_put k (interp (interp v))) (callOutputs info) []\<rparr>))"

text \<open>
  The container goes unless it is kept to look at a failure; its minute starts here, whatever has
  happened to the job's own context.
\<close>

definition stop_job ::
  "'a job_world_scheme job_env \<Rightarrow> 'a job_world_scheme job_info \<Rightarrow> 'a job_world_scheme \<Rightarrow> go_error option \<times> 'a job_world_scheme" where
  "stop_job E info w =
     (let (ctx, w) = WithTimeout Background minute w;
          w = uploadSummary info ctx w;
          w = Infof (''Cleaning up container for job '' @ rcJobName (jcfg E)) w;
          (err, w) = stopContainer info ctx w
      in (err, case err of
                 None \<Rightarrow> w
               | Some e \<Rightarrow> log_at LevelError False
                   (''##[error]'' @ EscapeCommandData (''Error while stop job container: '' @ error_string e)) w))"

definition teardown :: "'a job_world_scheme job_env \<Rightarrow> 'a job_world_scheme job_info \<Rightarrow> 'a job_world_scheme executor" where
  "teardown E info = (\<lambda>ctx w.
     (let jobError = JobError ctx w;
          (err, w) = (if AutoRemove info \<or> jobError = None \<or> jobCancelled w then stop_job E info w else (None, w))
      in (err, setJobOutputs E info (setJobResult E info (jobError = None) w))))"

section \<open>The job\<close>

text \<open>The steps, numbered; a step without a kind or one that cannot be made is the job's only error.\<close>

fun build_steps ::
  "'w job_info \<Rightarrow> nat \<Rightarrow> step_model option list \<Rightarrow> go_error + 'w job_step list" where
  "build_steps info i [] = Inr []"
| "build_steps info i (None # ms) =
     Inl (Errorf (''invalid Step '' @ itoa (int i) @ '': missing run or uses key''))"
| "build_steps info i (Some m # ms) =
     (let m = m\<lparr>step_ID := or_default (step_ID m) (itoa (int i)), step_Number := i\<rparr>
      in case newStep info m of
           Inl err \<Rightarrow> Inl err
         | Inr s \<Rightarrow>
             (case build_steps info (Suc i) ms of Inl err \<Rightarrow> Inl err | Inr sts \<Rightarrow> Inr ((i, m, s) # sts)))"

definition pre_steps ::
  "'a job_world_scheme job_env \<Rightarrow> 'a job_world_scheme job_info \<Rightarrow> 'a job_world_scheme job_step list \<Rightarrow> 'a job_world_scheme executor list" where
  "pre_steps E info sts =
     [resolve_env E, runJobStartedHook E (hookContext info),
      printPrepareActions (List.map_filter (\<lambda>(i, m, s). preparer s) sts)]
     @ map pre_exec sts @ [printCompleteJobName (jcfg E)]"

definition post_steps ::
  "'a job_world_scheme job_env \<Rightarrow> 'a job_world_scheme job_info \<Rightarrow> 'a job_world_scheme executor \<Rightarrow> 'a job_world_scheme executor" where
  "post_steps E info postExecutor =
     Finally (Finally postExecutor (runJobCompletedHook E (hookContext info))) (teardown E info)"

definition run_post ::
  "'a job_world_scheme executor \<Rightarrow> 'a job_world_scheme executor" where
  "run_post postExecutor = (\<lambda>ctx w.
     (let w = markInterrupted (ctx_Err ctx w) w; (postCtx, w) = postStepsContext ctx w
      in postExecutor postCtx w))"

definition newJobExecutor ::
  "'a job_world_scheme job_env \<Rightarrow> 'a job_world_scheme job_info \<Rightarrow> 'a job_world_scheme executor" where
  "newJobExecutor E info =
     (if infoSteps info = [] then NewDebugExecutor ''No steps found''
      else case build_steps info 0 (infoSteps info) of
             Inl err \<Rightarrow> NewErrorExecutor err
           | Inr sts \<Rightarrow>
               (case post_chain sts of
                  None \<Rightarrow> NewDebugExecutor ''No steps found''
                | Some postExecutor \<Rightarrow>
                    NewPipelineExecutor
                      [startContainer info,
                       Finally (Finally (Finally
                         (newStepsExecutor (pre_steps E info sts) (matrix_info info # map main_exec sts))
                         (run_post (post_steps E info postExecutor)))
                         (interpolateOutputs info)) (closeContainer info)]))"

definition applyJobTimeout ::
  "'a job_world_scheme job_env \<Rightarrow> 'a job_world_scheme job_info \<Rightarrow> ctx \<Rightarrow> 'a job_world_scheme \<Rightarrow> ctx \<times> 'a job_world_scheme" where
  "applyJobTimeout E info ctx w = minutes_timeout (Interpolate (jev E) w (jobTimeoutMinutes info)) ctx w"
section \<open>Relations the job executor respects\<close>

text \<open>
  A contract on everything a job runs: a reflexive and transitive relation between the world before and
  after, which the executor's own bookkeeping respects. Where the container, the actions and the stages of
  the steps respect it too, so does whatever the job is assembled from.
\<close>

definition container_rel ::
  "('a job_world_scheme \<Rightarrow> 'a job_world_scheme \<Rightarrow> bool) \<Rightarrow> 'a job_world_scheme job_container \<Rightarrow> bool" where
  "container_rel R c =
     (\<forall>ctx w. (\<forall>d fs. R w (snd (Copy c d fs ctx w))) \<and> (\<forall>cmd e. R w (snd (ExecIn c cmd e ctx w))) \<and>
        (\<forall>p. R w (snd (GetContainerArchive c p ctx w))) \<and> R w (snd (UpdateFromImage c ctx w)))"

definition executor_rel ::
  "('a job_world_scheme \<Rightarrow> 'a job_world_scheme \<Rightarrow> bool) \<Rightarrow> 'a job_world_scheme executor \<Rightarrow> bool" where
  "executor_rel R x = (\<forall>ctx w. R w (snd (x ctx w)))"

locale job_rel = exec_rel R for R :: "'a job_world_scheme \<Rightarrow> 'a job_world_scheme \<Rightarrow> bool" +
  assumes R_log: "R w (log_at l r m w)"
    and R_interrupted: "R w (markInterrupted err w)"
    and R_reportStepError: "R w (reportStepError ctx e w)"
    and R_timeout: "R w (snd (WithTimeout ctx d w))"
    and R_env: "R w (w\<lparr>Env := v\<rparr>)" and R_global: "R w (w\<lparr>GlobalEnv := v\<rparr>)" and R_path: "R w (w\<lparr>ExtraPath := q\<rparr>)"
    and R_writer: "R w (w\<lparr>logWriter := u\<rparr>)" and R_index: "R w (w\<lparr>CurrentStepIndex := i\<rparr>)"
begin

lemma R_steps: "R w1 w2 \<Longrightarrow> R w2 w3 \<Longrightarrow> R w3 w4 \<Longrightarrow> R w1 w4"
  using R_trans by blast

lemma fold_rel: "(\<And>x w. R w (f x w)) \<Longrightarrow> R w (fold f xs w)"
  by (induction xs arbitrary: w) (auto simp: R_refl intro: R_trans)

lemma setEnv_rel: "R w (setEnv kv v w)"
  using R_steps [OF R_log R_env R_global] by (simp add: setEnv_def Let_def)

lemma addPath_rel: "R w (addPath v w)"
  using R_trans [OF R_log R_path] by (simp add: addPath_def)

lemma env_file_rel:
  assumes "container_rel R c" and "\<And>kv v w. R w (setter kv v w)"
  shows "R w (snd (processRunnerEnvFileCommand c f setter ctx w))"
proof -
  obtain a w1 where g: "GetContainerArchive c (join_path GetActPath f) ctx w = (a, w1)" by fastforce
  then have 1: "R w w1" using assms(1) by (metis container_rel_def snd_conv)
  have "R w1 (fold (\<lambda>(k, v). setter [(''name'', k)] v) kvs w1)" for kvs
    by (rule fold_rel) (auto simp: assms(2))
  with 1 R_trans [OF 1] show ?thesis
    by (auto simp: processRunnerEnvFileCommand_def UpdateFromEnv_def g split: prod.split option.split)
qed

lemma extra_path_rel:
  assumes "container_rel R c"
  shows "R w (snd (UpdateExtraPath c path ctx w))"
proof -
  obtain a w1 where g: "GetContainerArchive c path ctx w = (a, w1)" by fastforce
  then have 1: "R w w1" using assms by (metis container_rel_def snd_conv)
  have "R w1 (fold (\<lambda>line w. if line \<noteq> [] then addPath line w else w) ls w1)" for ls
    by (rule fold_rel) (simp add: addPath_rel R_refl)
  with 1 R_trans [OF 1] show ?thesis
    by (auto simp: UpdateExtraPath_def g split: sum.split archive.split)
qed

lemma apply_path_rel: "container_rel R c \<Longrightarrow> R w (snd (ApplyExtraPath c ctx e w))"
  by (auto simp: ApplyExtraPath_def container_rel_def Let_def split_beta R_refl)

lemma hook_env_rel: "container_rel R (jcont E) \<Longrightarrow> R w (snd (hook_env E github ctx w))"
  using R_trans [OF R_env apply_path_rel] by (simp add: hook_env_def Let_def)

lemma hook_setup_rel: "container_rel R c \<Longrightarrow> R w (snd (snd (setupHookFileCommands c ctx e w)))"
  by (simp add: setupHookFileCommands_def Let_def container_rel_def)

lemma hook_files_rel:
  assumes "container_rel R c"
  shows "R w (snd (processHookFileCommands c ctx w))"
proof -
  obtain e w1 where p: "processRunnerEnvFileCommand c hookEnvFileCommand setEnv ctx w = (e, w1)" by fastforce
  then have 1: "R w w1"
    using env_file_rel [where setter = setEnv, OF assms setEnv_rel, of w hookEnvFileCommand ctx] by simp
  with R_trans [OF 1 extra_path_rel [OF assms]] show ?thesis
    by (cases e) (auto simp: processHookFileCommands_def and_then_def p)
qed

lemma hook_header_rel: "R w (hook_header hookPath name shell w)"
  using R_steps [OF R_log R_log R_log] R_trans [OF R_log R_log] by (simp add: hook_header_def Let_def)

lemma hook_rel:
  assumes c: "container_rel R (jcont E)"
  shows "R w (snd (runJobHook E github hookPath name ctx w))"
proof (cases "hookPath = []")
  case False
  obtain cmd shell where h: "hookCommand hookPath = (cmd, shell)" by fastforce
  define w1 where "w1 = hook_header hookPath name shell w"
  obtain e w2 where e: "hook_env E github ctx w1 = (e, w2)" by fastforce
  obtain e' err w3 where s: "setupHookFileCommands (jcont E) ctx e w2 = (e', err, w3)" by (metis prod_cases3)
  obtain err2 w4 where x: "(case err of Some x \<Rightarrow> (Some x, w3) | None \<Rightarrow> ExecIn (jcont E) cmd e' ctx w3) = (err2, w4)" by fastforce
  obtain perr w5 where p: "processHookFileCommands (jcont E) ctx w4 = (perr, w5)" by fastforce
  have 1: "R w w1" by (simp add: w1_def hook_header_rel)
  have 2: "R w1 w2" using hook_env_rel [OF c, where w = w1 and github = github and ctx = ctx] e by simp
  have 3: "R w2 w3" using hook_setup_rel [OF c, where w = w2 and ctx = ctx and e = e] s by simp
  have "R w3 (snd (ExecIn (jcont E) cmd e' ctx w3))" using c by (simp add: container_rel_def)
  with x have 4: "R w3 w4" by (cases err) (auto simp: R_refl)
  have 5: "R w4 w5" using hook_files_rel [OF c, where w = w4 and ctx = ctx] p by simp
  have "R w5 (log_at LevelInfo True m w5)" "R w5 (log_at LevelInfo True m (reportStepError ctx x w5))" for m x
    using R_log R_trans [OF R_reportStepError R_log] by auto
  with R_steps [OF R_steps [OF 1 2 3] 4 5] False show ?thesis
    by (auto simp: runJobHook_def h Let_def w1_def [symmetric] e s x p split: option.split intro: R_trans)
qed (simp add: runJobHook_def R_refl)

lemma report_rel: "R w (report c e w)"
  by (auto simp: report_def R_refl R_reportStepError split: option.split)

lemma at_step_rel: "executor_rel R x \<Longrightarrow> executor_rel R (at_step i x)"
  unfolding executor_rel_def at_step_def split_beta
  by (auto intro!: R_steps [OF R_index _ report_rel])

lemma stage_rel: "executor_rel R x \<Longrightarrow> executor_rel R (useStepLogger i st x)"
  unfolding executor_rel_def useStepLogger_def split_beta
  by (auto intro!: R_steps [OF R_writer _ R_writer])

lemma main_stage_rel: "executor_rel R x \<Longrightarrow> executor_rel R (\<lambda>ctx w. (None, snd (x ctx w)))"
  by (simp add: executor_rel_def)

lemma prepare_rel:
  "\<forall>(p, f)\<in>set ps. executor_rel R p \<Longrightarrow> executor_rel R (prepare_each ps)"
proof (induction ps)
  case (Cons pf ps)
  obtain p f where pf: "pf = (p, f)" by fastforce
  have p: "R w (snd (p ctx w))" and ps: "R w (snd (prepare_each ps ctx w))" for ctx w
    using Cons by (auto simp: executor_rel_def pf)
  show ?case
    unfolding executor_rel_def
  proof (intro allI)
    fix ctx w
    obtain err w1 where x: "p ctx w = (err, w1)" by fastforce
    then have 1: "R w w1" using p [of w ctx] by simp
    show "R w (snd (prepare_each (pf # ps) ctx w))"
      using R_trans [OF 1 R_reportStepError] R_trans [OF 1 ps] R_steps [OF 1 R_log ps]
      by (cases err) (auto simp: pf x rawf_def split: option.split)
  qed
qed (simp add: executor_rel_def R_refl)

lemma print_prepare_rel:
  "\<forall>(p, f)\<in>set ps. executor_rel R p \<Longrightarrow> executor_rel R (printPrepareActions ps)"
proof -
  assume "\<forall>(p, f)\<in>set ps. executor_rel R p"
  then have "R w (snd (prepare_each ps ctx w))" for ctx w
    using prepare_rel [of ps] by (simp add: executor_rel_def)
  from R_trans [OF R_log this] show ?thesis
    by (simp add: executor_rel_def printPrepareActions_def rawf_def R_refl)
qed

lemma setup_rel:
  assumes "container_rel R (jcont E)"
  shows "executor_rel R (resolve_env E)" and "executor_rel R (runJobStartedHook E github)"
    and "executor_rel R (runJobCompletedHook E github)" and "executor_rel R (printCompleteJobName c)"
    and "executor_rel R (matrix_info info)"
  using hook_rel [OF assms]
  by (simp_all add: executor_rel_def resolve_env_def printCompleteJobName_def matrix_info_def rawf_def Let_def R_refl R_log R_env
      runJobStartedHook_def runJobCompletedHook_def)

lemma run_all_rel: "list_all (executor_rel R) es \<Longrightarrow> R w (run_all es c w)"
proof (induction es arbitrary: w)
  case (Cons e es)
  then have "R w (snd (e c w))" by (simp add: executor_rel_def)
  with Cons show ?case by (auto intro: R_trans)
qed (simp add: R_refl)

lemma interrupted_rel:
  assumes "list_all (executor_rel R) es"
  shows "R w (snd (runMainStepsAfterInterrupt es c w))"
  using R_steps [OF R_interrupted R_timeout run_all_rel [OF assms]]
  by (simp add: runMainStepsAfterInterrupt_def Let_def split_beta)

lemma main_rel: "list_all (executor_rel R) es \<Longrightarrow> R w (snd (newMainStepsExecutor es c w))"
proof (induction es arbitrary: w)
  case (Cons e es)
  then have "R w (snd (e c w))" by (simp add: executor_rel_def)
  with Cons interrupted_rel [of "e # es" w c] show ?case by (auto intro: R_trans)
qed (simp add: R_interrupted)

lemma executor_pipeline_rel: "list_all (executor_rel R) es \<Longrightarrow> executor_rel R (NewPipelineExecutor es)"
  by (auto simp: executor_rel_def list_all_iff intro: pipeline_rel)

lemma post_chain_rel:
  "list_all (\<lambda>st. executor_rel R (post_exec st)) sts \<Longrightarrow> post_chain sts = Some p \<Longrightarrow> executor_rel R p"
proof (induction sts arbitrary: p rule: rev_induct)
  case (snoc st sts)
  then show ?case
    by (cases "post_chain sts") (auto simp: post_chain_def executor_rel_def intro: Finally_rel)
qed (simp add: post_chain_def)

lemma executor_finally_rel: "executor_rel R a \<Longrightarrow> executor_rel R b \<Longrightarrow> executor_rel R (Finally a b)"
  by (auto simp: executor_rel_def intro: Finally_rel)

end

section \<open>Footprints\<close>

text \<open>
  What a job does in which order is read off the rest of the world, behind the job's fields: there
  every executor from outside leaves its marks, and a footprint is the set of the ways an executor may
  extend them. The executors of this theory leave no marks of their own.
\<close>

abbreviation marks_of :: "'e list job_world_scheme \<Rightarrow> 'e list" where
  "marks_of \<equiv> job_world.more"

definition leaves :: "'e list job_world_scheme executor \<Rightarrow> 'e list set \<Rightarrow> bool" where
  "leaves x F = (\<forall>ctx w. \<exists>tr\<in>F. marks_of (snd (x ctx w)) = marks_of w @ tr)"

named_theorems marks_simps \<open>operations that leave no mark\<close>

lemma leavesD: "leaves x F \<Longrightarrow> x ctx w = (err, w') \<Longrightarrow> \<exists>tr\<in>F. marks_of w' = marks_of w @ tr"
  by (metis leaves_def snd_conv)

lemma leaves_one: "leaves x {tr} \<longleftrightarrow> (\<forall>ctx w. marks_of (snd (x ctx w)) = marks_of w @ tr)"
  by (simp add: leaves_def)

lemma leaves_mono: "leaves x F \<Longrightarrow> F \<subseteq> G \<Longrightarrow> leaves x G"
  unfolding leaves_def by blast

lemma leaves_Finally:
  assumes "leaves a A" and "leaves b B"
  shows "leaves (Finally a b) {s @ t | s t. s \<in> A \<and> t \<in> B}"
  unfolding leaves_def
proof (intro allI)
  fix ctx w
  obtain e1 w1 where a: "a ctx w = (e1, w1)" by fastforce
  obtain e2 w2 where b: "b ctx w1 = (e2, w2)" by fastforce
  have "snd (Finally a b ctx w) = w2" by (cases e2) (simp_all add: Finally_def a b)
  with leavesD [OF assms(1) a] leavesD [OF assms(2) b]
  show "\<exists>tr\<in>{s @ t | s t. s \<in> A \<and> t \<in> B}. marks_of (snd (Finally a b ctx w)) = marks_of w @ tr"
    by fastforce
qed

text \<open>A pipeline leaves the marks of its executors up to the one it stops at.\<close>

definition up_to :: "'e list list \<Rightarrow> 'e list set" where
  "up_to ts = {concat (take k ts) | k. k \<le> length ts}"

lemma up_to_Nil [simp]: "up_to [] = {[]}"
  by (auto simp: up_to_def)

lemma up_to_Cons: "up_to (t # ts) = insert [] ((\<lambda>x. t @ x) ` up_to ts)"
proof (intro set_eqI iffI)
  fix x
  assume "x \<in> up_to (t # ts)"
  then obtain k where "k \<le> Suc (length ts)" "x = concat (take k (t # ts))" by (auto simp: up_to_def)
  then show "x \<in> insert [] ((\<lambda>x. t @ x) ` up_to ts)" by (cases k) (auto simp: up_to_def)
next
  fix x
  assume "x \<in> insert [] ((\<lambda>x. t @ x) ` up_to ts)"
  then consider "x = []" | k where "k \<le> length ts" "x = t @ concat (take k ts)" by (auto simp: up_to_def)
  then show "x \<in> up_to (t # ts)"
    by cases (auto simp: up_to_def intro: exI [of _ 0] exI [of _ "Suc _"])
qed

lemma leaves_pipeline:
  "list_all2 (\<lambda>e t. leaves e {t}) es ts \<Longrightarrow> leaves (NewPipelineExecutor es) (up_to ts)"
proof (induction es ts rule: list_all2_induct)
  case Nil
  show ?case by (simp add: leaves_def)
next
  case (Cons e es t ts)
  show ?case
    unfolding leaves_def
  proof (intro allI)
    fix ctx w
    obtain err w1 where e: "e ctx w = (err, w1)" by fastforce
    then have w1: "marks_of w1 = marks_of w @ t" using leavesD [OF Cons.hyps(1) e] by simp
    have nil: "[] \<in> up_to ts" by (auto simp: up_to_def intro: exI [of _ 0])
    have "snd (NewPipelineExecutor (e # es) ctx w) = w1 \<or>
        snd (NewPipelineExecutor (e # es) ctx w) = snd (NewPipelineExecutor es ctx w1)"
      unfolding pipeline_spec by (simp add: e split: option.split)
    moreover obtain tr where "tr \<in> up_to ts" "marks_of (snd (NewPipelineExecutor es ctx w1)) = marks_of w1 @ tr"
      using Cons.IH by (auto simp: leaves_def)
    ultimately show "\<exists>tr\<in>up_to (t # ts). marks_of (snd (NewPipelineExecutor (e # es) ctx w)) = marks_of w @ tr"
      using w1 nil by (auto simp: up_to_Cons)
  qed
qed

lemma run_all_marks:
  "list_all2 (\<lambda>e t. leaves e {t}) es ts \<Longrightarrow> marks_of (run_all es ctx w) = marks_of w @ concat ts"
proof (induction es ts arbitrary: w rule: list_all2_induct)
  case (Cons e es t ts)
  then show ?case by (simp add: leaves_one)
qed simp

lemma marks_core [simp, marks_simps]:
  "marks_of (log_at l r m w) = marks_of w" "marks_of (markInterrupted err w) = marks_of w"
  "marks_of (markFailed w) = marks_of w" "marks_of (SetJobError ctx err w) = marks_of w"
  "marks_of (snd (WithTimeout ctx d w)) = marks_of w" "marks_of (snd (WithJobErrorContainer ctx w)) = marks_of w"
  "marks_of (snd (minutes_timeout t ctx w)) = marks_of w"
  by (auto simp: log_at_def markInterrupted_def markCancelled_def markFailed_def SetJobError_def WithTimeout_def
      WithJobErrorContainer_def minutes_timeout_def split: option.split)

lemma marks_report [simp, marks_simps]:
  "marks_of (reportStepError ctx err w) = marks_of w" "marks_of (report ctx e w) = marks_of w"
  by (auto simp: reportStepError_def report_def split: option.split)

lemma marks_commands [simp, marks_simps]:
  "marks_of (setEnv kv v w) = marks_of w" "marks_of (addPath v w) = marks_of w"
  by (simp_all add: setEnv_def addPath_def Let_def)

lemma leaves_interrupted:
  assumes "list_all2 (\<lambda>e t. leaves e {t}) es ts"
  shows "leaves (runMainStepsAfterInterrupt es) {concat ts}"
  unfolding leaves_one
proof (intro allI)
  fix ctx w
  show "marks_of (snd (runMainStepsAfterInterrupt es ctx w)) = marks_of w @ concat ts"
    using marks_core(5) [of "WithoutCancel ctx" grace "markInterrupted (ctx_Err ctx w) w"]
    by (simp add: runMainStepsAfterInterrupt_def Let_def split_beta run_all_marks [OF assms])
qed

text \<open>However the main steps are interrupted, all of them run, once and in order.\<close>

lemma leaves_main:
  "list_all2 (\<lambda>e t. leaves e {t}) es ts \<Longrightarrow> leaves (newMainStepsExecutor es) {concat ts}"
proof (induction es ts rule: list_all2_induct)
  case Nil
  show ?case by (simp add: leaves_one)
next
  case (Cons e es t ts)
  then have i: "leaves (runMainStepsAfterInterrupt (e # es)) {concat (t # ts)}"
    by (intro leaves_interrupted) simp
  show ?case
    unfolding leaves_one
  proof (intro allI)
    fix ctx w
    show "marks_of (snd (newMainStepsExecutor (e # es) ctx w)) = marks_of w @ concat (t # ts)"
      using Cons.IH Cons.hyps(1) i by (simp add: leaves_one)
  qed
qed

lemma leaves_steps:
  assumes "list_all2 (\<lambda>e t. leaves e {t}) ps pts" and "list_all2 (\<lambda>e t. leaves e {t}) ms mts"
  shows "leaves (newStepsExecutor ps ms) {s @ concat mts | s. s \<in> up_to pts}"
  unfolding leaves_def
proof (intro allI)
  fix ctx w
  obtain e1 w1 where p: "NewPipelineExecutor ps ctx w = (e1, w1)" by fastforce
  obtain e2 w2 where m: "newMainStepsExecutor ms ctx w1 = (e2, w2)" by fastforce
  from leavesD [OF leaves_pipeline [OF assms(1)] p] leavesD [OF leaves_main [OF assms(2)] m]
  show "\<exists>tr\<in>{s @ concat mts | s. s \<in> up_to pts}. marks_of (snd (newStepsExecutor ps ms ctx w)) = marks_of w @ tr"
    by (auto simp: newStepsExecutor_def p m)
qed

section \<open>The order of a job\<close>

datatype job_event = Started | Ran stepStage nat | Stopped | Interpolated | Closed

fun event_stage :: "job_event \<Rightarrow> stepStage option" where
  "event_stage (Ran st i) = Some st"
| "event_stage _ = None"

definition silent :: "'e list job_world_scheme executor \<Rightarrow> bool" where
  "silent x = leaves x {[]}"

definition same_marks :: "'e list job_world_scheme \<Rightarrow> 'e list job_world_scheme \<Rightarrow> bool" where
  "same_marks w w' = (marks_of w' = marks_of w)"

interpretation sm: job_rel same_marks
  by unfold_locales (simp_all add: same_marks_def)

text \<open>A backend whose operations do what they do to the container only.\<close>

abbreviation silent_container :: "'e list job_world_scheme job_container \<Rightarrow> bool" where
  "silent_container c \<equiv> container_rel same_marks c"

lemma silent_rel: "silent x \<longleftrightarrow> executor_rel same_marks x"
  by (simp add: silent_def leaves_one executor_rel_def same_marks_def)

lemma leaves_stage:
  "leaves x {tr} \<Longrightarrow> leaves (useStepLogger i st (at_step i x)) {tr}"
  by (simp add: leaves_one useStepLogger_def at_step_def split_beta)

lemma leaves_main_stage:
  "leaves x {tr} \<Longrightarrow> leaves (useStepLogger i st (\<lambda>ctx w. (None, snd (at_step i x ctx w)))) {tr}"
  by (simp add: leaves_one useStepLogger_def at_step_def split_beta)

text \<open>The steps of a job as the world outside sees them: each stage leaves its mark, getting an action leaves none.\<close>

definition marked_step :: "(job_event list job_world_scheme) job_step \<Rightarrow> bool" where
  "marked_step st = (case st of (i, m, s) \<Rightarrow>
     leaves (pre s) {[Ran stepStagePre i]} \<and> leaves (main s) {[Ran stepStageMain i]} \<and>
     leaves (post s) {[Ran stepStagePost i]} \<and> (\<forall>p f. preparer s = Some (p, f) \<longrightarrow> silent p))"

definition marked_job ::
  "(job_event list job_world_scheme) job_env \<Rightarrow> (job_event list job_world_scheme) job_info \<Rightarrow> bool" where
  "marked_job E info =
     (silent_container (jcont E) \<and> leaves (startContainer info) {[Started]} \<and> leaves (stopContainer info) {[Stopped]} \<and>
      leaves (interpolateOutputs info) {[Interpolated]} \<and> leaves (closeContainer info) {[Closed]} \<and>
      (\<forall>ctx w. marks_of (uploadSummary info ctx w) = marks_of w))"

definition stage_event :: "stepStage \<Rightarrow> 'w job_step \<Rightarrow> job_event" where
  "stage_event stage st = Ran stage (fst st)"

lemma leaves_post_chain:
  assumes "list_all marked_step sts" and "sts \<noteq> []"
  shows "\<exists>p. post_chain sts = Some p \<and> leaves p {map (stage_event stepStagePost) (rev sts)}"
  using assms
proof (induction sts rule: rev_induct)
  case (snoc st sts)
  obtain i m s where st: "st = (i, m, s)" by (metis prod_cases3)
  have e: "leaves (post_exec st) {[stage_event stepStagePost st]}"
    using snoc.prems by (simp add: st post_exec_def marked_step_def leaves_stage stage_event_def)
  show ?case
  proof (cases "sts = []")
    case True
    with e show ?thesis by (simp add: post_chain_def)
  next
    case False
    with snoc obtain p where p: "post_chain sts = Some p" "leaves p {map (stage_event stepStagePost) (rev sts)}"
      by auto
    have "post_chain (sts @ [st]) = Some (Finally (post_exec st) p)"
      using p(1) by (simp add: post_chain_def)
    with leaves_Finally [OF e p(2)] show ?thesis by simp
  qed
qed simp

lemma silent_setup:
  assumes "silent_container (jcont E)" and "list_all marked_step sts"
  shows "silent (resolve_env E)" and "silent (runJobStartedHook E github)" and "silent (runJobCompletedHook E github)"
    and "silent (printPrepareActions (List.map_filter (\<lambda>(i, m, s). preparer s) sts))"
proof -
  have "\<forall>(p, f)\<in>set (List.map_filter (\<lambda>(i, m, s). preparer s) sts). executor_rel same_marks p"
    using assms(2) by (fastforce simp: map_filter_def list_all_iff marked_step_def silent_rel)
  then show "silent (printPrepareActions (List.map_filter (\<lambda>(i, m, s). preparer s) sts))"
    unfolding silent_rel by (rule sm.print_prepare_rel)
qed (simp_all add: silent_rel sm.setup_rel [OF assms(1)])

lemma silent_matrix_info: "silent (matrix_info info)"
  by (simp add: silent_def leaves_one matrix_info_def)

lemma silent_complete: "silent (printCompleteJobName c)"
  by (simp add: silent_def leaves_one printCompleteJobName_def rawf_def)

lemma marks_setJobResult [simp, marks_simps]:
  "marks_of (setJobResult E info b w) = marks_of w" "marks_of (setJobOutputs E info w) = marks_of w"
  by (auto simp: setJobResult_def setJobOutputs_def evaluateJobContinueOnError_def Let_def split_beta split: option.split sum.split)

lemma leaves_teardown:
  assumes "marked_job E info" and "AutoRemove info"
  shows "leaves (teardown E info) {[Stopped]}"
  unfolding leaves_one
proof (intro allI)
  fix ctx and w :: "job_event list job_world_scheme"
  have stop: "marks_of (snd (stopContainer info c x)) = marks_of x @ [Stopped]" for c x
    using assms(1) by (simp add: marked_job_def leaves_one)
  have up: "marks_of (uploadSummary info c x) = marks_of x" for c x
    using assms(1) by (simp add: marked_job_def)
  show "marks_of (snd (teardown E info ctx w)) = marks_of w @ [Stopped]"
    using assms(2) by (simp add: teardown_def stop_job_def Let_def split_beta stop up split: option.split)
qed

definition job_marks :: "nat \<Rightarrow> nat \<Rightarrow> job_event list" where
  "job_marks k n =
     [Started] @ map (Ran stepStagePre) [0..<k] @ map (Ran stepStageMain) [0..<n] @ map (Ran stepStagePost) (rev [0..<n])
     @ [Stopped, Interpolated, Closed]"

lemma build_steps_numbers:
  "build_steps info i ms = Inr sts \<Longrightarrow> map fst sts = [i..<i + length ms] \<and> length sts = length ms"
proof (induction ms arbitrary: i sts)
  case (Cons m ms)
  then show ?case
  proof (cases m)
    case (Some m')
    with Cons.prems obtain s sts' where "sts = (i, m'\<lparr>step_ID := or_default (step_ID m') (itoa (int i)), step_Number := i\<rparr>, s) # sts'"
      "build_steps info (Suc i) ms = Inr sts'"
      by (auto simp: Let_def split: sum.splits)
    with Cons.IH [of "Suc i" sts'] show ?thesis by (simp add: upt_rec)
  qed simp
qed simp

lemma up_to_map: "up_to (map (\<lambda>x. [f x]) xs) = {map f (take k xs) | k. k \<le> length xs}"
proof -
  have "concat (map (\<lambda>x. [f x]) ys) = map f ys" for ys by (induction ys) auto
  then show ?thesis by (auto simp: up_to_def take_map)
qed

lemma up_to_silent: "up_to ([] # ts) = up_to ts" "up_to (ts @ [[]]) = up_to ts"
proof -
  show "up_to ([] # ts) = up_to ts"
    by (auto simp: up_to_Cons) (auto simp: up_to_def intro: exI [of _ 0])
  show "up_to (ts @ [[]]) = up_to ts"
  proof (induction ts)
    case Nil
    show ?case by (auto simp: up_to_Cons)
  qed (simp add: up_to_Cons)
qed

lemma pre_steps_marks:
  assumes "silent_container (jcont E)" and "list_all marked_step sts"
  shows "list_all2 (\<lambda>e t. leaves e {t}) (pre_steps E info sts)
    ([] # [] # [] # map (\<lambda>st. [stage_event stepStagePre st]) sts @ [[]])"
proof -
  have pre: "list_all2 (\<lambda>e t. leaves e {t}) (map pre_exec sts) (map (\<lambda>st. [stage_event stepStagePre st]) sts)"
    using assms(2)
    by (auto simp: list_all2_map1 list_all2_map2 list_all2_same list_all_iff marked_step_def pre_exec_def
        stage_event_def leaves_stage)
  then show ?thesis
    using silent_setup [OF assms, unfolded silent_def] silent_complete [unfolded silent_def]
    by (auto simp: pre_steps_def intro!: list_all2_appendI)
qed

lemma main_steps_marks:
  assumes "silent_container (jcont E)" and "list_all marked_step sts"
  shows "list_all2 (\<lambda>e t. leaves e {t}) (matrix_info info # map main_exec sts) ([] # map (\<lambda>st. [stage_event stepStageMain st]) sts)"
  using assms(2) silent_matrix_info [unfolded silent_def]
  by (auto simp: list_all2_map1 list_all2_map2 list_all2_same list_all_iff marked_step_def main_exec_def
      stage_event_def leaves_main_stage)

lemma leaves_run_post: "leaves p {tr} \<Longrightarrow> leaves (run_post p) {tr}"
  by (auto simp: leaves_one run_post_def Let_def split_beta postStepsContext_def WithTimeout_def WithJobErrorContainer_def
      split: option.split go_error.split)

lemma concat_singles: "concat (map (\<lambda>x. [f x]) xs) = map f xs"
  by (induction xs) auto

lemma stage_events:
  "map fst sts = [0..<n] \<Longrightarrow> map (stage_event stage) (take k sts) = map (Ran stage) (take k [0..<n])"
  "map fst sts = [0..<n] \<Longrightarrow> map (stage_event stage) sts = map (Ran stage) [0..<n]"
  "map fst sts = [0..<n] \<Longrightarrow> map (stage_event stage) (rev sts) = map (Ran stage) (rev [0..<n])"
  by (metis (no_types, lifting) comp_apply map_eq_conv map_map stage_event_def take_map rev_map)+

text \<open>
  C1: a job whose container started runs to its end whatever happens to it. Its pre steps run in order up to the
  first that fails or is interrupted; every main step runs, once and in order; every post step runs, once and in
  reverse; then the container is stopped, the outputs are resolved and the container is closed. A job whose
  container did not start, or that was interrupted by the time it had, runs nothing.
\<close>

theorem job_order:
  assumes "marked_job E info" and "AutoRemove info" and "build_steps info 0 (infoSteps info) = Inr sts"
    and "list_all marked_step sts" and "infoSteps info \<noteq> []"
    and "startContainer info ctx w = (err0, w0)"
  shows "\<exists>k \<le> length (infoSteps info). marks_of (snd (newJobExecutor E info ctx w)) = marks_of w @
    (if err0 = None \<and> ctx_Err ctx w0 = None then job_marks k (length (infoSteps info)) else [Started])"
proof -
  let ?n = "length (infoSteps info)"
  have fst': "map fst sts = [0..<?n]" and len: "length sts = ?n"
    using build_steps_numbers [OF assms(3)] by simp_all
  with assms(5) have ne: "sts \<noteq> []" by auto
  have c: "silent_container (jcont E)" using assms(1) by (simp add: marked_job_def)
  obtain p where p: "post_chain sts = Some p" "leaves p {map (stage_event stepStagePost) (rev sts)}"
    using leaves_post_chain [OF assms(4) ne] by auto
  note su = silent_setup [OF c assms(4), unfolded silent_def]
  have post: "leaves (run_post (post_steps E info p)) {map (stage_event stepStagePost) (rev sts) @ [Stopped]}"
    unfolding post_steps_def
    by (rule leaves_run_post)
      (use leaves_Finally [OF leaves_Finally [OF p(2) su(3)] leaves_teardown [OF assms(1,2)]] in simp)
  have steps: "leaves (newStepsExecutor (pre_steps E info sts) (matrix_info info # map main_exec sts))
      {map (stage_event stepStagePre) (take k sts) @ map (stage_event stepStageMain) sts | k. k \<le> ?n}"
    by (rule leaves_mono [OF leaves_steps [OF pre_steps_marks [OF c assms(4)] main_steps_marks [OF c assms(4)]]])
      (auto simp: up_to_silent up_to_map concat_singles len)
  have io: "leaves (interpolateOutputs info) {[Interpolated]}" "leaves (closeContainer info) {[Closed]}"
    "leaves (startContainer info) {[Started]}"
    using assms(1) by (simp_all add: marked_job_def)
  define rest where "rest = Finally (Finally (Finally
      (newStepsExecutor (pre_steps E info sts) (matrix_info info # map main_exec sts))
      (run_post (post_steps E info p))) (interpolateOutputs info)) (closeContainer info)"
  have rest: "leaves rest {map (stage_event stepStagePre) (take k sts) @ map (stage_event stepStageMain) sts @
      map (stage_event stepStagePost) (rev sts) @ [Stopped, Interpolated, Closed] | k. k \<le> ?n}"
    unfolding rest_def
    by (rule leaves_mono [OF leaves_Finally [OF leaves_Finally [OF leaves_Finally [OF steps post] io(1)] io(2)]]) auto
  have run: "newJobExecutor E info = NewPipelineExecutor [startContainer info, rest]"
    using assms(3,5) p(1) by (simp add: newJobExecutor_def rest_def)
  have w0: "marks_of w0 = marks_of w @ [Started]"
    using leavesD [OF io(3) assms(6)] by simp
  show ?thesis
  proof (cases "err0 = None \<and> ctx_Err ctx w0 = None")
    case True
    then have "snd (newJobExecutor E info ctx w) = snd (rest ctx w0)"
      by (simp add: run pipeline_Cons Then_def assms(6))
    moreover obtain k where "k \<le> ?n" "marks_of (snd (rest ctx w0)) = marks_of w0 @
        map (stage_event stepStagePre) (take k sts) @ map (stage_event stepStageMain) sts @
        map (stage_event stepStagePost) (rev sts) @ [Stopped, Interpolated, Closed]"
      using rest unfolding leaves_def by blast
    ultimately show ?thesis
      using True w0 by (intro exI [of _ k]) (simp add: job_marks_def stage_events [OF fst'])
  next
    case False
    then have "snd (newJobExecutor E info ctx w) = w0"
      by (auto simp: run pipeline_Cons Then_def assms(6) split: option.split)
    with False w0 show ?thesis by auto
  qed
qed
definition demo_mark :: "job_event \<Rightarrow> (job_event list job_world_scheme) executor" where
  "demo_mark e = (\<lambda>ctx w. (None, job_world.more_update (\<lambda>l. l @ [e]) w))"

definition demo_quiet :: "'w job_container" where
  "demo_quiet = \<lparr>Copy = (\<lambda>d fs ctx w. (None, w)), ExecIn = (\<lambda>c e ctx w. (None, w)),
     GetContainerArchive = (\<lambda>p ctx w. (Inr EmptyTar, w)), UpdateFromImage = (\<lambda>ctx w. (None, w)),
     PathVariableName = ''PATH'', DefaultPathVariable = ''/bin'', JoinPathVariable = join '':'', decodeByBOM = id\<rparr>"

definition demo_job_env :: "'a job_world_scheme job_env" where
  "demo_job_env = \<lparr>jcfg = demo_config, josenv = (\<lambda>_. []), jcont = demo_quiet,
     jev = \<lparr>Interpolate = (\<lambda>w t. t), InterpolateEnv = (\<lambda>e w t. t), EvalBool = (\<lambda>e w t d. Inr (t = ''true''))\<rparr>, jhooks = ([], [])\<rparr>"

definition demo_model :: step_model where
  "demo_model = \<lparr>step_ID = ''s'', step_Number = 0, step_Display = ''d'', step_Env = [], RawContinueOnError = [], TimeoutMinutes = []\<rparr>"

definition demo_info :: "(job_event list job_world_scheme) job_info" where
  "demo_info = \<lparr>matrix = [], infoSteps = [Some demo_model], startContainer = demo_mark Started, stopContainer = demo_mark Stopped,
     closeContainer = demo_mark Closed, interpolateOutputs = demo_mark Interpolated, uploadSummary = (\<lambda>ctx w. w),
     newStep = (\<lambda>m. Inr \<lparr>pre = demo_mark (Ran stepStagePre (step_Number m)), main = demo_mark (Ran stepStageMain (step_Number m)),
       post = demo_mark (Ran stepStagePost (step_Number m)), preparer = None\<rparr>),
     AutoRemove = True, hookContext = demo_github, RawJobContinueOnError = [], jobTimeoutMinutes = [], callOutputs = []\<rparr>"

definition demo_job_world :: "'a \<Rightarrow> 'a job_world_scheme" where
  "demo_job_world m = job_world.extend
     (step_world.extend demo_world (job_world.fields [] False [] [] [] None)) m"

theorem job_order_witness:
  "\<exists>k \<le> 1. marks_of (snd (newJobExecutor demo_job_env demo_info Background (demo_job_world []))) = job_marks k 1"
proof -
  have l: "leaves (demo_mark e) {[e]}" for e by (simp add: leaves_one demo_mark_def)
  have j: "marked_job demo_job_env demo_info"
    by (simp add: marked_job_def demo_info_def l demo_job_env_def container_rel_def same_marks_def demo_quiet_def)
  obtain sts where b: "build_steps demo_info 0 (infoSteps demo_info) = Inr sts" "list_all marked_step sts"
    by (simp add: demo_info_def Let_def marked_step_def l)
  obtain err0 w0 where s: "startContainer demo_info Background (demo_job_world []) = (err0, w0)" by fastforce
  then have e: "err0 = None" by (simp add: demo_info_def demo_mark_def)
  have m: "marks_of (demo_job_world [] :: job_event list job_world_scheme) = []" by (simp add: demo_job_world_def job_world.defs)
  show ?thesis
    using job_order [OF j _ b _ s] e m by (simp add: demo_info_def)
qed

section \<open>What a failure leaves behind\<close>

text \<open>
  The contract of everything a job runs: a job error that is recorded stays, the job is not cancelled, and
  nobody but the teardown writes the result.
\<close>

definition calm :: "ctx \<Rightarrow> 'a job_world_scheme \<Rightarrow> 'a job_world_scheme \<Rightarrow> bool" where
  "calm ctx w w' =
     ((\<forall>c<next_cell w. error_cells w c \<noteq> None \<longrightarrow> error_cells w' c \<noteq> None) \<and> next_cell w \<le> next_cell w' \<and>
      (ctx_Err ctx w \<noteq> Some Canceled \<longrightarrow> ctx_Err ctx w' \<noteq> Some Canceled) \<and> jobResult w' = jobResult w)"

lemma calm_refl: "calm ctx w w"
  by (simp add: calm_def)

lemma calm_trans: "calm ctx w1 w2 \<Longrightarrow> calm ctx w2 w3 \<Longrightarrow> calm ctx w1 w3"
  by (auto simp: calm_def)

lemma calm_same:
  "error_cells w' = error_cells w \<Longrightarrow> next_cell w' = next_cell w \<Longrightarrow> fired w' = fired w \<Longrightarrow> jobResult w' = jobResult w \<Longrightarrow>
   calm ctx w w'"
  by (simp add: calm_def ctx_Err_def)

lemma calm_interrupted: "calm ctx w (markInterrupted e w)"
  by (auto intro!: calm_same simp: markInterrupted_def markCancelled_def markFailed_def split: option.split)

lemma calm_log: "calm ctx w (log_at l r m w)"
  by (rule calm_same) (simp_all add: log_at_def)

lemma calm_SetJobError: "calm ctx w (SetJobError c (Some err) w)"
  by (auto simp: calm_def SetJobError_def ctx_Err_def split: option.split)

lemma calm_markFailed: "calm ctx w (markFailed w)"
  by (rule calm_same) (simp_all add: markFailed_def)

lemma calm_reportStepError: "calm ctx w (reportStepError c err w)"
  unfolding reportStepError_def
  by (simp only: calm_interrupted calm_trans [OF calm_trans [OF calm_log calm_SetJobError] calm_markFailed] if_split simp_thms)

lemma calm_WithTimeout: "calm ctx w (snd (WithTimeout c d w))"
proof -
  have "ctx_Err ctx (snd (WithTimeout c d w)) \<noteq> Some Canceled" if "ctx_Err ctx w \<noteq> Some Canceled"
    using that by (auto simp: WithTimeout_def ctx_Err_def find_append split: option.splits if_splits)
  then show ?thesis by (auto simp: calm_def WithTimeout_def)
qed

interpretation cm: job_rel "calm ctx" for ctx
proof (unfold_locales, goal_cases)
  case 1 show ?case by (rule calm_refl)
next
  case 2 then show ?case by (rule calm_trans)
next
  case 3 show ?case by (rule calm_same) (simp_all add: log_at_def)
next
  case 4 show ?case by (rule calm_interrupted)
next
  case 5 show ?case by (rule calm_reportStepError)
next
  case 6 show ?case by (rule calm_WithTimeout)
qed (rule calm_same; simp)+

lemma calm_keeps: "calm ctx w w' \<Longrightarrow> c < next_cell w \<Longrightarrow> error_cells w c = Some e \<Longrightarrow> \<exists>e'. error_cells w' c = Some e'"
  by (auto simp: calm_def)

lemma calm_cells: "calm ctx w w' \<Longrightarrow> next_cell w \<le> next_cell w'"
  by (simp add: calm_def)

text \<open>An executor that records an error in its context's container, and what a list of steps with one leaves.\<close>

definition records :: "nat \<Rightarrow> 'a job_world_scheme executor \<Rightarrow> bool" where
  "records c x = (\<forall>ctx w. error_container ctx = Some c \<longrightarrow> error_cells (snd (x ctx w)) c \<noteq> None)"

lemma run_all_records:
  "list_all (executor_rel (calm ctx)) es \<Longrightarrow> x \<in> set es \<Longrightarrow> records k x \<Longrightarrow> error_container c = Some k \<Longrightarrow> k < next_cell w \<Longrightarrow>
   error_cells (run_all es c w) k \<noteq> None"
proof (induction es arbitrary: w)
  case (Cons e es)
  have e: "calm ctx w (snd (e c w))" using Cons.prems(1) by (simp add: executor_rel_def)
  then have k: "k < next_cell (snd (e c w))" using Cons.prems(5) by (auto dest: calm_cells)
  show ?case
  proof (cases "x = e")
    case True
    then have "error_cells (snd (e c w)) k \<noteq> None" using Cons.prems(3,4) by (simp add: records_def)
    with cm.run_all_rel [of ctx es "snd (e c w)" c] Cons.prems(1) k show ?thesis by (auto dest: calm_keeps)
  next
    case False
    with Cons k show ?thesis by simp
  qed
qed simp

lemma main_records:
  "list_all (executor_rel (calm ctx)) es \<Longrightarrow> x \<in> set es \<Longrightarrow> records k x \<Longrightarrow> error_container c = Some k \<Longrightarrow> k < next_cell w \<Longrightarrow>
   error_cells (snd (newMainStepsExecutor es c w)) k \<noteq> None"
proof (induction es arbitrary: w)
  case (Cons e es)
  show ?case
  proof (cases "ctx_Err c w = None")
    case True
    have e: "calm ctx w (snd (e c w))" using Cons.prems(1) by (simp add: executor_rel_def)
    then have k: "k < next_cell (snd (e c w))" using Cons.prems(5) by (auto dest: calm_cells)
    show ?thesis
    proof (cases "x = e")
      case x: True
      then have "error_cells (snd (e c w)) k \<noteq> None" using Cons.prems(3,4) by (simp add: records_def)
      with cm.main_rel [of ctx es "snd (e c w)" c] Cons.prems(1) k True show ?thesis by (auto dest: calm_keeps)
    next
      case False
      with Cons k True show ?thesis by simp
    qed
  next
    case False
    let ?w1 = "markInterrupted (ctx_Err c w) w"
    obtain fc w2 where t: "WithTimeout (WithoutCancel c) grace ?w1 = (fc, w2)" by fastforce
    then have fc: "error_container fc = Some k" "k < next_cell w2"
      using Cons.prems(4,5) calm_interrupted [of ctx w "ctx_Err c w"]
      by (auto simp: WithTimeout_def WithoutCancel_def dest: calm_cells)
    from run_all_records [OF Cons.prems(1,2,3) fc] False show ?thesis
      by (auto simp: runMainStepsAfterInterrupt_def Let_def t)
  qed
qed simp



definition calm_job ::
  "ctx \<Rightarrow> 'a job_world_scheme job_env \<Rightarrow> 'a job_world_scheme job_info \<Rightarrow> 'a job_world_scheme job_step list \<Rightarrow> bool" where
  "calm_job ctx E info sts =
     (container_rel (calm ctx) (jcont E) \<and>
      list_all (executor_rel (calm ctx)) [startContainer info, stopContainer info, closeContainer info, interpolateOutputs info] \<and>
      (\<forall>c w. calm ctx w (uploadSummary info c w)) \<and>
      list_all (\<lambda>(i, m, s). list_all (executor_rel (calm ctx)) [pre s, main s, post s] \<and>
        (\<forall>p f. preparer s = Some (p, f) \<longrightarrow> executor_rel (calm ctx) p)) sts)"

lemma main_exec_records:
  assumes "\<And>c w. \<exists>e. fst (main s c w) = Some e \<and> \<not> errors_is e Canceled"
  shows "records k (main_exec (i, m, s))"
  unfolding records_def
proof (intro allI impI)
  fix c :: ctx and w
  assume c: "error_container c = Some k"
  obtain err w1 where x: "main s c (w\<lparr>logWriter := Some (i, stepStageMain), CurrentStepIndex := i\<rparr>) = (err, w1)" by fastforce
  with assms [of c "w\<lparr>logWriter := Some (i, stepStageMain), CurrentStepIndex := i\<rparr>"]
  obtain e where e: "err = Some e" "\<not> errors_is e Canceled" by auto
  then show "error_cells (snd (main_exec (i, m, s) c w)) k \<noteq> None"
    using c x by (auto simp: main_exec_def useStepLogger_def at_step_def report_def reportStepError_def markFailed_def
        SetJobError_def log_at_def)
qed

lemma calm_stages:
  assumes "calm_job ctx E info sts"
  shows "list_all (executor_rel (calm ctx)) (pre_steps E info sts)"
    and "list_all (executor_rel (calm ctx)) (matrix_info info # map main_exec sts)"
    and "list_all (\<lambda>st. executor_rel (calm ctx) (post_exec st)) sts"
proof -
  have c: "container_rel (calm ctx) (jcont E)"
    using assms by (simp only: calm_job_def)
  have s: "executor_rel (calm ctx) (pre s) \<and> executor_rel (calm ctx) (main s) \<and> executor_rel (calm ctx) (post s) \<and>
      (\<forall>p f. preparer s = Some (p, f) \<longrightarrow> executor_rel (calm ctx) p)" if "(i, m, s) \<in> set sts" for i m s
    using assms that by (auto simp: calm_job_def list_all_iff)
  have stages: "executor_rel (calm ctx) (pre_exec st)" "executor_rel (calm ctx) (main_exec st)" "executor_rel (calm ctx) (post_exec st)"
    if "st \<in> set sts" for st
  proof -
    obtain i m t where st: "st = (i, m, t)" by (metis prod_cases3)
    with s [of i m t] that show "executor_rel (calm ctx) (pre_exec st)" "executor_rel (calm ctx) (main_exec st)"
      "executor_rel (calm ctx) (post_exec st)"
      by (simp_all add: pre_exec_def main_exec_def post_exec_def cm.stage_rel cm.main_stage_rel cm.at_step_rel)
  qed
  have "\<forall>(p, f)\<in>set (List.map_filter (\<lambda>(i, m, s). preparer s) sts). executor_rel (calm ctx) p"
    using s by (fastforce simp: map_filter_def)
  then have prep: "executor_rel (calm ctx) (printPrepareActions (List.map_filter (\<lambda>(i, m, s). preparer s) sts))"
    by (rule cm.print_prepare_rel)
  show "list_all (executor_rel (calm ctx)) (pre_steps E info sts)"
    unfolding list_all_iff
  proof
    fix x assume "x \<in> set (pre_steps E info sts)"
    then consider "x = resolve_env E" | "x = runJobStartedHook E (hookContext info)"
      | "x = printPrepareActions (List.map_filter (\<lambda>(i, m, s). preparer s) sts)" | "x = printCompleteJobName (jcfg E)"
      | st where "st \<in> set sts" "x = pre_exec st"
      by (auto simp: pre_steps_def)
    then show "executor_rel (calm ctx) x"
      by cases (simp_all only: prep stages(1) cm.setup_rel(1,2,4) [OF c])
  qed
  show "list_all (executor_rel (calm ctx)) (matrix_info info # map main_exec sts)"
    unfolding list_all_iff
  proof
    fix x assume "x \<in> set (matrix_info info # map main_exec sts)"
    then consider "x = matrix_info info" | st where "st \<in> set sts" "x = main_exec st" by auto
    then show "executor_rel (calm ctx) x"
      by cases (simp_all only: stages(2) cm.setup_rel(5) [OF c])
  qed
  from stages(3) show "list_all (\<lambda>st. executor_rel (calm ctx) (post_exec st)) sts"
    by (simp add: list_all_iff)
qed

lemma jobResult_setJobOutputs: "jobResult (setJobOutputs E info w) = jobResult w"
  by (simp add: setJobOutputs_def Let_def split: option.split)

lemma jobResult_setJobResult: "jobResult (setJobResult E info False w) = ''failure''"
  by (cases "evaluateJobContinueOnError E (RawJobContinueOnError info) w"; cases "rcCaller (jcfg E)")
    (simp_all add: setJobResult_def Let_def log_at_def)

lemma failed_teardown: "JobError c w \<noteq> None \<Longrightarrow> jobResult (snd (teardown E info c w)) = ''failure''"
  by (auto simp: teardown_def Let_def split_beta jobResult_setJobOutputs jobResult_setJobResult)

lemma failed_post:
  assumes "error_container ctx = Some k" and "k < next_cell w" and "error_cells w k = Some e"
    and "ctx_Err ctx w \<noteq> Some Canceled" and "executor_rel (calm ctx) p" and "container_rel (calm ctx) (jcont E)"
  shows "jobResult (snd (run_post (post_steps E info p) ctx w)) = ''failure''"
proof -
  let ?w1 = "markInterrupted (ctx_Err ctx w) w"
  obtain c w2 where pc: "postStepsContext ctx ?w1 = (c, w2)" by fastforce
  have w1: "calm ctx w ?w1" by (rule calm_interrupted)
  then have "ctx_Err ctx ?w1 \<noteq> Some Canceled" using assms(4) by (simp add: calm_def)
  then have c: "error_container c = Some k" "error_cells w2 = error_cells ?w1" "next_cell w2 = next_cell ?w1"
    using pc assms(1) by (auto simp: postStepsContext_def WithTimeout_def WithoutCancel_def split: option.splits go_error.splits)
  obtain e2 where e2: "error_cells w2 k = Some e2" "k < next_cell w2"
    using calm_keeps [OF w1 assms(2,3)] calm_cells [OF w1] assms(2) c by auto
  define w3 where "w3 = snd (Finally p (runJobCompletedHook E (hookContext info)) c w2)"
  have "calm ctx w2 w3"
    using cm.executor_finally_rel [OF assms(5) cm.setup_rel(3) [OF assms(6)]] by (simp add: w3_def executor_rel_def)
  from calm_keeps [OF this e2(2,1)] have "JobError c w3 \<noteq> None" using c by (auto simp: JobError_def)
  from failed_teardown [OF this] show ?thesis
    by (simp add: run_post_def Let_def pc post_steps_def Finally_always_runs [of _ "teardown E info"] w3_def [symmetric])
qed


text \<open>No stage starts before the one ahead of it is through.\<close>

lemma stages_in_order: "sorted (List.map_filter event_stage (job_marks k n))"
proof -
  have "List.map_filter event_stage (map (Ran st) xs) = map (\<lambda>_. st) xs" for st and xs :: "nat list"
    by (induction xs) (simp_all add: map_filter_simps)
  moreover have "List.map_filter f (xs @ ys) = List.map_filter f xs @ List.map_filter f ys" for f :: "job_event \<Rightarrow> stepStage option" and xs ys
    by (simp add: map_filter_def)
  ultimately show ?thesis
    by (auto simp: job_marks_def map_filter_simps sorted_append sorted_wrt_map less_eq_stepStage_def simp flip: map_append)
qed

end
