(* ===== verification/JobSummary.thy ===== *)
theory JobSummary
  imports JobExecutor Masker
begin

text \<open>
  The upload of the step summaries before a job's container is stopped, the last part of
  \<^verbatim>\<open>act/runner/job_executor.go\<close>: whether the server takes summaries, the job's number in the runtime
  token, the file found in the container's archive, its truncation, and the request with its one retry.
  The decoding of JSON and the client are arguments.
\<close>

section \<open>Capability and token\<close>

text \<open>\<^verbatim>\<open>strings.FieldsFunc\<close>: the runs of runes that do not separate.\<close>

fun fields_func :: "(string \<Rightarrow> bool) \<Rightarrow> string \<Rightarrow> string list \<Rightarrow> string list" where
  "fields_func sep cur [] = (if cur = [] then [] else [cur])"
| "fields_func sep cur (r # rs) =
     (if sep r then (if cur = [] then [] else [cur]) @ fields_func sep [] rs
      else fields_func sep (cur @ r) rs)"

definition hasJobSummaryCapability :: "string \<Rightarrow> bool" where
  "hasJobSummaryCapability caps =
     (''job-summary'' \<in> set (fields_func (\<lambda>r. r = '','' \<or> r \<in> set go_spaces) [] (runes caps)))"

text \<open>
  \<^verbatim>\<open>base64.RawURLEncoding.DecodeString\<close>: line breaks are skipped, any other foreign character is an
  error, as is a single character that is left over; the bits of the last character that fill no byte are
  dropped.
\<close>

definition url_value :: "char \<Rightarrow> nat option" where
  "url_value c =
     (let n = byte c
      in if 65 \<le> n \<and> n \<le> 90 then Some (n - 65)
         else if 97 \<le> n \<and> n \<le> 122 then Some (n - 71)
         else if 48 \<le> n \<and> n \<le> 57 then Some (n + 4)
         else if c = CHR ''-'' then Some 62 else if c = CHR ''_'' then Some 63 else None)"

fun url_bytes :: "nat list \<Rightarrow> string option" where
  "url_bytes [] = Some []"
| "url_bytes [a] = None"
| "url_bytes [a, b] = Some [char_of (4 * a + b div 16)]"
| "url_bytes [a, b, c] = Some [char_of (4 * a + b div 16), char_of (16 * (b mod 16) + c div 4)]"
| "url_bytes (a # b # c # d # ns) =
     map_option (\<lambda>s. [char_of (4 * a + b div 16), char_of (16 * (b mod 16) + c div 4), char_of (64 * (c mod 4) + d)] @ s)
       (url_bytes ns)"

definition RawURL_DecodeString :: "string \<Rightarrow> string option" where
  "RawURL_DecodeString s =
     (let vs = map url_value (filter (\<lambda>c. c \<noteq> CHR 0x0A \<and> c \<noteq> CHR 0x0D) s)
      in if None \<in> set vs then None else url_bytes (map the vs))"

text \<open>\<open>claims\<close> reads the field \<^verbatim>\<open>JobID\<close> of a JSON object, zero where there is none.\<close>

definition extractJobIDFromRuntimeToken :: "(string \<Rightarrow> int option) \<Rightarrow> string \<Rightarrow> int" where
  "extractJobIDFromRuntimeToken claims token =
     (let parts = split_at CHR ''.'' token
      in if length parts \<noteq> 3 then 0
         else case RawURL_DecodeString (parts ! 1) of
                None \<Rightarrow> 0
              | Some payload \<Rightarrow> (case claims payload of None \<Rightarrow> 0 | Some j \<Rightarrow> j))"

section \<open>The file\<close>

definition maxJobSummaryBytes :: nat where "maxJobSummaryBytes = 1024 * 1024"

definition jobSummaryTruncationMarker :: string where
  "jobSummaryTruncationMarker =
     [CHR 0x0A, CHR 0x0A] @ ''---'' @ [CHR 0x0A, CHR 0x0A] @
     ''*Job summary truncated: it exceeded the maximum allowed size.*'' @ [CHR 0x0A]"

text \<open>\<^verbatim>\<open>path.Clean\<close> and \<^verbatim>\<open>path.Base\<close>.\<close>

fun clean_parts :: "bool \<Rightarrow> string list \<Rightarrow> string list \<Rightarrow> string list" where
  "clean_parts rooted out [] = rev out"
| "clean_parts rooted out (p # ps) =
     (if p = [] \<or> p = ''.'' then clean_parts rooted out ps
      else if p = ''..'' then
        (case out of
           [] \<Rightarrow> clean_parts rooted (if rooted then [] else [p]) ps
         | q # out' \<Rightarrow> clean_parts rooted (if q = ''..'' then p # out else out') ps)
      else clean_parts rooted (p # out) ps)"

definition path_Clean :: "string \<Rightarrow> string" where
  "path_Clean p =
     (let rooted = has_prefix ''/'' p;
          body = join ''/'' (clean_parts rooted [] (split_at CHR ''/'' p))
      in if rooted then CHR ''/'' # body else if body = [] then ''.'' else body)"

definition path_Base :: "string \<Rightarrow> string" where
  "path_Base p =
     (if p = [] then ''.''
      else (let q = trim_right ''/'' p in if q = [] then ''/'' else last (split_at CHR ''/'' q)))"

definition archiveEntryMatchesPath :: "string \<Rightarrow> string \<Rightarrow> bool" where
  "archiveEntryMatchesPath entryName requestedPath =
     (let entryName = path_Clean (trim_prefix ''/'' entryName);
          requestedPath = path_Clean (trim_prefix ''/'' requestedPath)
      in entryName = requestedPath \<or> entryName = path_Base requestedPath)"

text \<open>
  What the reader of an archive yields in turn: entries, with what reading each gives (\<^term>\<open>None\<close> for an
  error), and at most one error that ends it.
\<close>

datatype tar_item = Entry string bool "string option" | BadHeader

definition truncated :: "nat \<Rightarrow> string \<Rightarrow> string" where
  "truncated maxBytes b =
     (if length b > maxBytes
      then take (maxBytes - length jobSummaryTruncationMarker) b @ jobSummaryTruncationMarker else b)"

fun read_single :: "string \<Rightarrow> nat \<Rightarrow> tar_item list \<Rightarrow> string option" where
  "read_single p maxBytes [] = None"
| "read_single p maxBytes (BadHeader # items) = None"
| "read_single p maxBytes (Entry name regular content # items) =
     (if \<not> regular \<or> \<not> archiveEntryMatchesPath name p then read_single p maxBytes items
      else case content of None \<Rightarrow> None | Some s \<Rightarrow> Some (truncated maxBytes (take (maxBytes + 1) s)))"

definition readSingleFileFromContainerArchive :: "string \<Rightarrow> nat \<Rightarrow> tar_item list option \<Rightarrow> string option" where
  "readSingleFileFromContainerArchive p maxBytes archive =
     (case archive of None \<Rightarrow> None | Some items \<Rightarrow> read_single p maxBytes items)"

section \<open>The request\<close>

definition isTransientJobSummaryUploadFailure :: "int \<Rightarrow> go_error option \<Rightarrow> bool" where
  "isTransientJobSummaryUploadFailure status err =
     (err \<noteq> None \<or> status = 408 \<or> status = 429 \<or> status div 100 = 5)"

text \<open>
  A client answers a request with a status or an error, and \<open>pause\<close> waits a second: it tells whether the
  context was done first. Both change the world; \<^verbatim>\<open>putJobSummary\<close> is the request itself.
\<close>

record 'w summary_client =
  put :: "string \<Rightarrow> string \<Rightarrow> string \<Rightarrow> ctx \<Rightarrow> 'w \<Rightarrow> (int \<times> go_error option) \<times> 'w"
  pause :: "ctx \<Rightarrow> 'w \<Rightarrow> bool \<times> 'w"

fun upload_attempts ::
  "'a job_world_scheme summary_client \<Rightarrow> string \<Rightarrow> string \<Rightarrow> string \<Rightarrow> nat \<Rightarrow> ctx \<Rightarrow> 'a job_world_scheme \<Rightarrow>
   (int \<times> go_error option) option \<times> 'a job_world_scheme" where
  "upload_attempts cl url token body left ctx w =
     (case put cl url token body ctx w of
        ((status, err), w) \<Rightarrow>
          if err = None \<and> status div 100 = 2 then (None, w)
          else if left = 0 \<or> \<not> isTransientJobSummaryUploadFailure status err then (Some (status, err), w)
          else (case pause cl ctx w of
                  (True, w) \<Rightarrow> (Some (status, ctx_Err ctx w), w)
                | (False, w) \<Rightarrow> (case left of 0 \<Rightarrow> (Some (status, err), w)
                    | Suc n \<Rightarrow> upload_attempts cl url token body n ctx w)))"

declare upload_attempts.simps [simp del]

definition uploadJobSummary ::
  "'a job_world_scheme summary_client \<Rightarrow> string \<Rightarrow> string \<Rightarrow> string \<Rightarrow> ctx \<Rightarrow> 'a job_world_scheme \<Rightarrow> 'a job_world_scheme" where
  "uploadJobSummary cl url runtimeToken body ctx w =
     (case upload_attempts cl url runtimeToken body 1 ctx w of
        (None, w) \<Rightarrow> w
      | (Some (status, Some e), w) \<Rightarrow> log_at LevelWarning False ''job summary upload failed'' w
      | (Some (status, None), w) \<Rightarrow> log_at LevelWarning False (''job summary upload failed: status='' @ itoa status) w)"

definition jobSummaryUploadPhaseTimeout :: int where "jobSummaryUploadPhaseTimeout = 15 * 10 ^ 9"

definition summary_path :: "nat \<Rightarrow> string" where
  "summary_path i = join_path GetActPath (summaryFileCommand i)"

fun upload_steps ::
  "'a job_world_scheme summary_client \<Rightarrow> (string \<Rightarrow> ctx \<Rightarrow> 'a job_world_scheme \<Rightarrow> tar_item list option \<times> 'a job_world_scheme) \<Rightarrow>
   string \<Rightarrow> string \<Rightarrow> nat list \<Rightarrow> ctx \<Rightarrow> 'a job_world_scheme \<Rightarrow> 'a job_world_scheme" where
  "upload_steps cl archive base token [] ctx w = w"
| "upload_steps cl archive base token (i # is) ctx w =
     (case archive (summary_path i) ctx w of
        (a, w) \<Rightarrow>
          upload_steps cl archive base token is ctx
            (case readSingleFileFromContainerArchive (summary_path i) maxJobSummaryBytes a of
               None \<Rightarrow> w
             | Some body \<Rightarrow>
                 if body = [] then w
                 else uploadJobSummary cl (base @ itoa (int i) @ ''/summary'') token body ctx w))"

definition tryUploadJobSummary ::
  "'a job_world_scheme summary_client \<Rightarrow> (string \<Rightarrow> ctx \<Rightarrow> 'a job_world_scheme \<Rightarrow> tar_item list option \<times> 'a job_world_scheme) \<Rightarrow>
   (string \<Rightarrow> int option) \<Rightarrow> run_config \<Rightarrow> nat \<Rightarrow> ctx \<Rightarrow> 'a job_world_scheme \<Rightarrow> 'a job_world_scheme" where
  "tryUploadJobSummary cl archive claims cfg n ctx w =
     (let (ctx, w) = WithTimeout ctx jobSummaryUploadPhaseTimeout w;
          w = w\<lparr>Env := GetEnv cfg (Env w)\<rparr>;
          caps = trim_space (dict_get (Env w) ''GITEA_ACTIONS_CAPABILITIES'');
          runtimeURL = trim_space (dict_get (Env w) ''ACTIONS_RUNTIME_URL'');
          runtimeToken = trim_space (dict_get (Env w) ''ACTIONS_RUNTIME_TOKEN'');
          runID = trim_space (dict_get (Env w) ''GITEA_RUN_ID'');
          jobID = extractJobIDFromRuntimeToken claims runtimeToken
      in if \<not> hasJobSummaryCapability caps \<or> runtimeURL = [] \<or> runtimeToken = [] \<or> runID = [] \<or> jobID \<le> 0 then w
         else upload_steps cl archive
                (trim_right ''/'' runtimeURL @ ''/_apis/pipelines/workflows/'' @ runID @ ''/jobs/'' @ itoa jobID @ ''/steps/'')
                runtimeToken [0..<n] ctx w)"
section \<open>Facts\<close>

lemma truncated_bound: "length jobSummaryTruncationMarker \<le> m \<Longrightarrow> length (truncated m b) \<le> m"
  by (simp add: truncated_def)

lemma read_single_bound: "read_single p m items = Some b \<Longrightarrow> length jobSummaryTruncationMarker \<le> m \<Longrightarrow> length b \<le> m"
  by (induction p m items rule: read_single.induct) (auto simp: truncated_bound split: if_splits option.splits)

lemma marker_fits: "length jobSummaryTruncationMarker \<le> maxJobSummaryBytes"
  by (simp add: jobSummaryTruncationMarker_def maxJobSummaryBytes_def)

text \<open>A client whose requests are its marks, over an archive that is only read.\<close>

type_synonym request = "string \<times> string \<times> string"

definition marked_client ::
  "(request list job_world_scheme) summary_client \<Rightarrow>
   (string \<Rightarrow> ctx \<Rightarrow> request list job_world_scheme \<Rightarrow> tar_item list option \<times> request list job_world_scheme) \<Rightarrow> bool" where
  "marked_client cl archive =
     ((\<forall>url token body ctx w. marks_of (snd (put cl url token body ctx w)) = marks_of w @ [(url, token, body)]) \<and>
      (\<forall>ctx w. marks_of (snd (pause cl ctx w)) = marks_of w) \<and>
      (\<forall>p ctx w. marks_of (snd (archive p ctx w)) = marks_of w))"

lemma attempts_marks:
  assumes "marked_client cl archive"
  shows "\<exists>k\<le>Suc left. marks_of (snd (upload_attempts cl url token body left ctx w)) =
    marks_of w @ replicate k (url, token, body)"
proof (induction left arbitrary: w)
  case 0
  have "marks_of (snd (upload_attempts cl url token body 0 ctx w)) = marks_of w @ [(url, token, body)]"
    using assms by (auto simp: upload_attempts.simps marked_client_def split_beta)
  then show ?case by (intro exI [of _ 1]) simp
next
  case (Suc left)
  obtain status err w1 where p: "put cl url token body ctx w = ((status, err), w1)" by (metis prod_cases3 surj_pair)
  then have w1: "marks_of w1 = marks_of w @ [(url, token, body)]" using assms by (auto simp: marked_client_def) (metis snd_conv)
  obtain d w2 where q: "pause cl ctx w1 = (d, w2)" by fastforce
  then have w2: "marks_of w2 = marks_of w1" using assms by (auto simp: marked_client_def) (metis snd_conv)
  from Suc.IH [of w2] obtain k where k: "k \<le> Suc left"
    "marks_of (snd (upload_attempts cl url token body left ctx w2)) = marks_of w2 @ replicate k (url, token, body)" by auto
  have "marks_of (snd (upload_attempts cl url token body (Suc left) ctx w)) = marks_of w @ [(url, token, body)] \<or>
      marks_of (snd (upload_attempts cl url token body (Suc left) ctx w)) = marks_of w @ replicate (Suc k) (url, token, body)"
    using w1 w2 k(2) by (simp add: upload_attempts.simps [of _ _ _ _ "Suc left"] p q split: bool.split)
  then show ?case
  proof
    assume "marks_of (snd (upload_attempts cl url token body (Suc left) ctx w)) = marks_of w @ [(url, token, body)]"
    then show ?thesis by (intro exI [of _ 1]) simp
  qed (use k(1) in \<open>auto intro: exI [of _ "Suc k"]\<close>)
qed

lemma upload_marks:
  assumes "marked_client cl archive"
  shows "\<exists>k\<le>2. marks_of (uploadJobSummary cl url token body ctx w) = marks_of w @ replicate k (url, token, body)"
proof -
  obtain k where k: "k \<le> 2" "marks_of (snd (upload_attempts cl url token body 1 ctx w)) = marks_of w @ replicate k (url, token, body)"
    using attempts_marks [OF assms, of 1 url token body ctx w] by (auto simp: numeral_2_eq_2)
  then show ?thesis
    by (intro exI [of _ k]) (auto simp: uploadJobSummary_def split_beta split: prod.split option.split)
qed

definition fair_requests :: "string \<Rightarrow> string \<Rightarrow> nat list \<Rightarrow> request list \<Rightarrow> bool" where
  "fair_requests base token is reqs =
     (length reqs \<le> 2 * length is \<and>
      (\<forall>(url, t, body)\<in>set reqs. t = token \<and> body \<noteq> [] \<and> length body \<le> maxJobSummaryBytes \<and>
        (\<exists>i\<in>set is. url = base @ itoa (int i) @ ''/summary'')))"

lemma upload_steps_marks:
  assumes "marked_client cl archive"
  shows "\<exists>reqs. marks_of (upload_steps cl archive base token is ctx w) = marks_of w @ reqs \<and> fair_requests base token is reqs"
proof (induction "is" arbitrary: w)
  case Nil
  show ?case by (simp add: fair_requests_def)
next
  case (Cons i "is")
  obtain a w1 where a: "archive (summary_path i) ctx w = (a, w1)" by fastforce
  then have w1: "marks_of w1 = marks_of w" using assms by (auto simp: marked_client_def) (metis snd_conv)
  let ?url = "base @ itoa (int i) @ ''/summary''"
  let ?r = "readSingleFileFromContainerArchive (summary_path i) maxJobSummaryBytes a"
  define w2 where "w2 = (case ?r of None \<Rightarrow> w1
    | Some body \<Rightarrow> if body = [] then w1 else uploadJobSummary cl ?url token body ctx w1)"
  have "\<exists>k b. k \<le> 2 \<and> marks_of w2 = marks_of w @ replicate k (?url, token, b) \<and>
      (k > 0 \<longrightarrow> b \<noteq> [] \<and> length b \<le> maxJobSummaryBytes)"
  proof (cases "?r = None \<or> ?r = Some []")
    case True
    then show ?thesis by (intro exI [of _ 0]) (auto simp: w2_def w1)
  next
    case False
    then obtain b where b: "?r = Some b" "b \<noteq> []" by auto
    then have "length b \<le> maxJobSummaryBytes"
      using read_single_bound [OF _ marker_fits] by (auto simp: readSingleFileFromContainerArchive_def split: option.splits)
    moreover obtain k where "k \<le> 2" "marks_of (uploadJobSummary cl ?url token b ctx w1) = marks_of w1 @ replicate k (?url, token, b)"
      using upload_marks [OF assms] by blast
    ultimately show ?thesis using b w1 by (intro exI [of _ k] exI [of _ b]) (simp add: w2_def)
  qed
  then obtain k b where k: "k \<le> 2" "marks_of w2 = marks_of w @ replicate k (?url, token, b)"
    "k > 0 \<longrightarrow> b \<noteq> [] \<and> length b \<le> maxJobSummaryBytes" by blast
  obtain reqs where r: "marks_of (upload_steps cl archive base token is ctx w2) = marks_of w2 @ reqs"
    "fair_requests base token is reqs" using Cons by blast
  have "marks_of (upload_steps cl archive base token (i # is) ctx w) = marks_of w @ replicate k (?url, token, b) @ reqs"
    using k(2) r(1) by (simp add: a w2_def)
  moreover have "fair_requests base token (i # is) (replicate k (?url, token, b) @ reqs)"
    using k r(2) by (auto simp: fair_requests_def)
  ultimately show ?case by blast
qed

section \<open>Properties\<close>



end
