(* ===== verification/Spec2Isabelle.thy ===== *)
theory Spec2Isabelle
  imports Labels Masker EnvFile Poller Reporter CacheStorage CacheHandler JobSummary
begin

text \<open>
  A verification development for the Gitea runner with a Kubernetes backend.
\<close>

end
